theory Spec2Isabelle
  imports Main "HOL-Library.Sublist" "HOL-Library.Multiset"
begin

section \<open>Python strings\<close>

text \<open>
  Python strings are sequences of code points; the model covers the code points below 256
  (one \<^typ>\<open>char\<close> each).  On that range \<open>str.isspace\<close>, which \<open>str.strip()\<close>, \<open>int()\<close> and
  the regular expression class \<open>\s\<close> all use, holds for 9-13, 28-32, 133 and 160, and
  \<open>str.lower()\<close> moves A-Z and the upper-case letters 192-222 (without the multiplication
  sign 215) up by 32.
\<close>

definition isspace :: "char \<Rightarrow> bool" where
  "isspace c = (let n = (of_char c :: nat)
                in (9 \<le> n \<and> n \<le> 13) \<or> (28 \<le> n \<and> n \<le> 32) \<or> n = 133 \<or> n = 160)"

definition isdigit :: "char \<Rightarrow> bool" where
  "isdigit c = (let n = (of_char c :: nat) in 48 \<le> n \<and> n \<le> 57)"

definition strip :: "string \<Rightarrow> string" where
  "strip s = rev (dropWhile isspace (rev (dropWhile isspace s)))"

definition lower_char :: "char \<Rightarrow> char" where
  "lower_char c = (let n = (of_char c :: nat)
                   in if (65 \<le> n \<and> n \<le> 90) \<or> (192 \<le> n \<and> n \<le> 222 \<and> n \<noteq> 215)
                      then char_of (n + 32) else c)"

definition lower :: "string \<Rightarrow> string" where
  "lower s = map lower_char s"

text \<open>\<open>sub in s\<close>: \<open>sub\<close> occurs in \<open>s\<close> as a contiguous run.\<close>

fun contains :: "'a list \<Rightarrow> 'a list \<Rightarrow> bool" where
  "contains sub [] = (sub = [])"
| "contains sub (c # cs) = (prefix sub (c # cs) \<or> contains sub cs)"

text \<open>
  \<open>s.split(sep)\<close> for a non-empty separator: the pieces between the occurrences of \<open>sep\<close>,
  found from the left without overlap.  (Both separators of the source are literals; Python
  raises on an empty separator, which this model leaves unsplit.)
\<close>

fun split_from :: "'a list \<Rightarrow> 'a list \<Rightarrow> 'a list \<Rightarrow> 'a list list" where
  "split_from sep acc [] = [rev acc]"
| "split_from sep acc (c # cs) =
     (if sep \<noteq> [] \<and> prefix sep (c # cs)
      then rev acc # split_from sep [] (drop (length sep - 1) cs)
      else split_from sep (c # acc) cs)"

definition split :: "'a list \<Rightarrow> 'a list \<Rightarrow> 'a list list" where
  "split s sep = split_from sep [] s"

datatype exn =
    ValueError
  | IndexError
  | NameError
  | SelectorSyntaxError
  | CouldntFindContainer
  | WebDriverException

text \<open>
  \<open>int(s)\<close> in base 10: surrounding white space is dropped, one sign is allowed, then
  groups of decimal digits separated by single underscores; anything else raises
  \<open>ValueError\<close>.
\<close>

definition digits_value :: "string \<Rightarrow> int" where
  "digits_value ds = foldl (\<lambda>a c. 10 * a + (int (of_char c) - 48)) 0 ds"

definition py_int :: "string \<Rightarrow> exn + int" where
  "py_int s =
     (let t = strip s;
          neg = (t \<noteq> [] \<and> hd t = CHR ''-'');
          body = (if t \<noteq> [] \<and> (hd t = CHR ''-'' \<or> hd t = CHR ''+'') then tl t else t);
          groups = split body ''_''
      in if list_all (\<lambda>g. g \<noteq> [] \<and> list_all isdigit g) groups
         then Inr (if neg then - digits_value (concat groups) else digits_value (concat groups))
         else Inl ValueError)"

section \<open>The parsed document\<close>

text \<open>
  A BeautifulSoup tree has two kinds of nodes: \<open>Tag\<close> (name, attribute dictionary,
  contents) and strings.  A string of the page's text is a \<open>NavigableString\<close>; the parser
  also makes strings of the subclasses \<open>CData\<close> (a CDATA section) and \<open>Comment\<close>,
  \<open>Doctype\<close>, \<open>Declaration\<close>, \<open>ProcessingInstruction\<close>, which the program cannot tell
  apart and for which \<open>Comment\<close> stands here.  The objects the program handles also know
  their parent and siblings, so an element is a node together with the path of enclosing
  tags up to the root, each with the siblings to the left and to the right: two elements
  are the same object exactly when they are equal.
\<close>

datatype node =
    Tag string "(string \<times> string) list" "node list"
  | NavigableString string
  | CData string
  | Comment string

type_synonym frame = "string \<times> (string \<times> string) list \<times> node list \<times> node list"

type_synonym element = "node \<times> frame list"

text \<open>The root object that \<open>BeautifulSoup(page_source, "html.parser")\<close> returns.\<close>

definition BeautifulSoup :: "node list \<Rightarrow> element" where
  "BeautifulSoup cs = (Tag ''[document]'' [] cs, [])"

text \<open>\<open>element.name\<close>: the tag name; \<open>None\<close> for a string.\<close>

fun name :: "element \<Rightarrow> string option" where
  "name (Tag nm at cs, fs) = Some nm"
| "name (NavigableString s, fs) = None"
| "name (CData s, fs) = None"
| "name (Comment s, fs) = None"

fun find_parent :: "element \<Rightarrow> element option" where
  "find_parent (n, []) = None"
| "find_parent (n, (nm, at, l, r) # fs) = Some (Tag nm at (l @ n # r), fs)"

text \<open>The elements for the nodes \<open>r\<close> that follow the nodes \<open>l\<close> under one parent.\<close>

fun siblings_from :: "string \<Rightarrow> (string \<times> string) list \<Rightarrow> frame list \<Rightarrow> node list \<Rightarrow> node list
                      \<Rightarrow> element list" where
  "siblings_from nm at fs l [] = []"
| "siblings_from nm at fs l (s # r) =
     (s, (nm, at, l, r) # fs) # siblings_from nm at fs (l @ [s]) r"

fun next_siblings :: "element \<Rightarrow> element list" where
  "next_siblings (n, []) = []"
| "next_siblings (n, (nm, at, l, r) # fs) = siblings_from nm at fs (l @ [n]) r"

fun children :: "element \<Rightarrow> element list" where
  "children (Tag nm at cs, fs) = siblings_from nm at fs [] cs"
| "children (NavigableString s, fs) = []"
| "children (CData s, fs) = []"
| "children (Comment s, fs) = []"

text \<open>\<open>element.descendants\<close>: everything below the element, in document order.\<close>

function descendants :: "element \<Rightarrow> element list" where
  "descendants (Tag nm at cs, fs) =
     concat (map (\<lambda>c. c # descendants c) (children (Tag nm at cs, fs)))"
| "descendants (NavigableString s, fs) = []"
| "descendants (CData s, fs) = []"
| "descendants (Comment s, fs) = []"
  by pat_completeness auto
termination
proof (relation "measure (\<lambda>e. size (fst e))")
  show "wf (measure (\<lambda>e::element. size (fst e)))" by simp
next
  fix nm at cs fs and c :: element
  assume c: "c \<in> set (children (Tag nm at cs, fs))"
  have nodes: "map fst (siblings_from nm at fs l r) = r" for l r
    by (induction r arbitrary: l) simp_all
  from c have "fst c \<in> set (map fst (siblings_from nm at fs [] cs))" by simp
  then have "fst c \<in> set cs" by (simp only: nodes)
  then have "size (fst c) \<le> size_list size cs" by (simp add: size_list_estimation')
  then show "(c, (Tag nm at cs, fs)) \<in> measure (\<lambda>e. size (fst e))" by simp
qed

text \<open>
  \<open>element.text\<close> of a tag joins the strings below it that are of the tag's interesting
  classes.  The HTML tree builders give a string of the page's text that lies inside an
  \<open>rt\<close>, \<open>rp\<close>, \<open>style\<close>, \<open>script\<close> or \<open>template\<close> tag the class of the innermost such
  tag (\<open>RubyTextString\<close>, \<open>RubyParenthesisString\<close>, \<open>Stylesheet\<close>, \<open>Script\<close>,
  \<open>TemplateString\<close>).  For a tag of one of these five names the interesting class is its
  own; for every other tag the interesting classes are exactly \<open>NavigableString\<close> and
  \<open>CData\<close>.  So the text of an ordinary tag leaves out what stands in scripts, style
  sheets and templates, and comments are in no tag's text.  (The program reads \<open>.text\<close>
  of tags only.)
\<close>

definition string_containers :: "string list" where
  "string_containers = [''rt'', ''rp'', ''style'', ''script'', ''template'']"

text \<open>The innermost enclosing tag that gives its strings a class of their own, if any.\<close>

definition string_container :: "element \<Rightarrow> string option" where
  "string_container e = find (\<lambda>nm. nm \<in> set string_containers) (map fst (snd e))"

text \<open>The container whose class of strings the element takes for its text, if any.\<close>

definition interesting_string_types :: "element \<Rightarrow> string option" where
  "interesting_string_types x =
     (case name x of
        None \<Rightarrow> None
      | Some nm \<Rightarrow> if nm \<in> set string_containers then Some nm else None)"

definition all_strings :: "element \<Rightarrow> string list" where
  "all_strings x =
     concat (map (\<lambda>d. case fst d of
                          Tag nm at cs \<Rightarrow> []
                        | NavigableString s \<Rightarrow>
                            if string_container d = interesting_string_types x then [s] else []
                        | CData s \<Rightarrow>
                            if interesting_string_types x = None then [s] else []
                        | Comment s \<Rightarrow> [])
                 (descendants x))"

definition get_text :: "element \<Rightarrow> string" where
  "get_text x = concat (all_strings x)"

section \<open>Ranking by z-index\<close>

text \<open>
  \<open>search_zindex\<close>: 0 unless the element has an attribute dictionary with a \<open>style\<close> entry
  that contains \<open>z-index:\<close>; then \<open>int(style.split("z-index:")[1].split(";")[0].strip())\<close>.
\<close>

definition search_zindex :: "element \<Rightarrow> exn + int" where
  "search_zindex element =
     (case fst element of
        NavigableString s \<Rightarrow> Inr 0
      | CData s \<Rightarrow> Inr 0
      | Comment s \<Rightarrow> Inr 0
      | Tag nm attrs cs \<Rightarrow>
          (case map_of attrs ''style'' of
             None \<Rightarrow> Inr 0
           | Some style \<Rightarrow>
               if contains ''z-index:'' style
               then (case split style ''z-index:'' of
                       a # b # rest \<Rightarrow>
                         (case split b '';'' of
                            x # ys \<Rightarrow> py_int (strip x)
                          | [] \<Rightarrow> Inl IndexError)
                     | _ \<Rightarrow> Inl IndexError)
               else Inr 0))"

text \<open>The keys of a sort are computed for the whole list first; the first failure is raised.\<close>

fun sort_keys :: "element list \<Rightarrow> exn + int list" where
  "sort_keys [] = Inr []"
| "sort_keys (x # xs) =
     (case search_zindex x of
        Inl e \<Rightarrow> Inl e
      | Inr k \<Rightarrow> (case sort_keys xs of Inl e \<Rightarrow> Inl e | Inr ks \<Rightarrow> Inr (k # ks)))"

text \<open>
  \<open>list.sort(key=..., reverse=...)\<close> is a stable sort on the keys; with \<open>reverse\<close> the list
  is reversed, sorted and reversed again, which keeps equal keys in their original order.
  A stable sort on a linear order has one result, so insertion sort stands for it.
\<close>

definition list_sort :: "(int \<times> 'a) list \<Rightarrow> bool \<Rightarrow> (int \<times> 'a) list" where
  "list_sort kvs reverse =
     (if reverse then rev (sort_key fst (rev kvs)) else sort_key fst kvs)"

definition zindex_sort :: "element list \<Rightarrow> bool \<Rightarrow> exn + element list" where
  "zindex_sort elements reverse =
     (case sort_keys elements of
        Inl e \<Rightarrow> Inl e
      | Inr ks \<Rightarrow> Inr (map snd (list_sort (zip ks elements) reverse)))"

section \<open>Label lookup\<close>

text \<open>
  \<open>find_first_div_parent\<close>: climb with \<open>find_parent()\<close> while the current object has a name
  other than \<open>div\<close>.  A string has the name \<open>None\<close> and is climbed over; above the root
  \<open>find_parent()\<close> gives \<open>None\<close>, which has no name and ends the loop.
\<close>

function find_first_div_parent :: "element \<Rightarrow> element option" where
  "find_first_div_parent current =
     (if name current \<noteq> Some ''div''
      then (case find_parent current of
              None \<Rightarrow> None
            | Some parent \<Rightarrow> find_first_div_parent parent)
      else Some current)"
  by pat_completeness auto
termination
  by (relation "measure (\<lambda>e. length (snd e))") (auto elim: find_parent.elims)

declare find_first_div_parent.simps [simp del]

text \<open>
  The compiled pattern \<open>^<re.escape(label_text)>\*?\s+$\<close>, searched in a string: the label
  text, at most one asterisk, then white space, at least one character of it, to the end.
\<close>

definition label_pattern :: "string \<Rightarrow> string \<Rightarrow> bool" where
  "label_pattern label_text s =
     (prefix label_text s \<and>
      (let rest = drop (length label_text) s;
           spaces = (if rest \<noteq> [] \<and> hd rest = CHR ''*'' then tl rest else rest)
       in spaces \<noteq> [] \<and> list_all isspace spaces))"

text \<open>
  \<open>container.find_all(text=pattern)\<close>: the strings below the container that match, of
  whatever class.
\<close>

definition find_all_text :: "(string \<Rightarrow> bool) \<Rightarrow> element \<Rightarrow> element list" where
  "find_all_text pattern container =
     filter (\<lambda>e. case fst e of
                   Tag nm at cs \<Rightarrow> False
                 | NavigableString s \<Rightarrow> pattern s
                 | CData s \<Rightarrow> pattern s
                 | Comment s \<Rightarrow> pattern s)
       (descendants container)"

text \<open>\<open>element.find_next_sibling(nm)\<close>: the first of the later siblings that is a tag \<open>nm\<close>.\<close>

definition find_next_sibling :: "string \<Rightarrow> element \<Rightarrow> element option" where
  "find_next_sibling nm e = find (\<lambda>s. name s = Some nm) (next_siblings e)"

definition find_label_element :: "string \<Rightarrow> element \<Rightarrow> element list" where
  "find_label_element label_text container =
     (case (case map find_first_div_parent (find_all_text (label_pattern label_text) container) of
              [] \<Rightarrow> None
            | first # others \<Rightarrow> first) of
        None \<Rightarrow> []
      | Some element \<Rightarrow>
          (case find_next_sibling ''input'' element of
             Some next_sibling \<Rightarrow> [next_sibling]
           | None \<Rightarrow> []))"

section \<open>The browser session\<close>

text \<open>
  Modelled from the spec: the enumeration \<open>ScrapType\<close> of \<open>tir.technologies.core.enumerations\<close>
  is not among the sources; these are the five strategies of the spec's \<open>SearchStrategy\<close>
  under the names the code uses.
\<close>

datatype ScrapType = TEXT | XPATH | CSS_SELECTOR | MIXED | SCRIPT

datatype By = By_CSS_SELECTOR | By_XPATH

type_synonym webelement = nat

text \<open>What \<open>execute_script\<close> hands back to Python.\<close>

datatype pyvalue =
    PyNone
  | PyBool bool
  | PyInt int
  | PyStr string
  | PyList "pyvalue list"
  | PyDict "(string \<times> pyvalue) list"
  | PyWebElement webelement

fun py_bool :: "pyvalue \<Rightarrow> bool" where
  "py_bool PyNone = False"
| "py_bool (PyBool b) = b"
| "py_bool (PyInt i) = (i \<noteq> 0)"
| "py_bool (PyStr s) = (s \<noteq> [])"
| "py_bool (PyList vs) = (vs \<noteq> [])"
| "py_bool (PyDict kvs) = (kvs \<noteq> [])"
| "py_bool (PyWebElement w) = True"

text \<open>
  What the program sees of its collaborators during one operation:
  \<^item> \<open>css\<close>: the selector engine of BeautifulSoup, \<open>None\<close> for a selector it rejects,
    otherwise which tags match, given the tag \<open>select\<close> was called on;
  \<^item> \<open>xpath_soup\<close>: the third-party helper that writes the XPath of a parsed element;
  \<^item> \<open>page_source i\<close>: the document \<open>get_current_DOM\<close> parses at its \<open>i\<close>-th call;
  \<^item> \<open>polls\<close>: how many rounds of the polling loop begin before its 60 second deadline;
  \<^item> the driver's \<open>execute_script\<close>, \<open>find_elements\<close>, \<open>find_element_by_xpath\<close> and the
    \<open>is_displayed\<close> of its elements.

  The driver is taken to deliver the page source and the displayedness of an element it
  has found; its other calls may raise.
\<close>

record base =
  css :: "string \<Rightarrow> (element \<Rightarrow> element \<Rightarrow> bool) option"
  xpath_soup :: "element \<Rightarrow> string"
  page_source :: "nat \<Rightarrow> element"
  polls :: nat
  execute_script :: "string \<Rightarrow> exn + pyvalue"
  find_elements :: "By \<Rightarrow> string \<Rightarrow> exn + webelement list"
  find_element_by_xpath :: "string \<Rightarrow> exn + webelement"
  is_displayed :: "webelement \<Rightarrow> bool"

definition base_container :: string where
  "base_container = ''body''"

text \<open>\<open>tag.select(selector)\<close>: the tags below \<open>tag\<close> that match, in document order.\<close>

definition select :: "base \<Rightarrow> element \<Rightarrow> string \<Rightarrow> exn + element list" where
  "select self tag selector =
     (case css self selector of
        None \<Rightarrow> Inl SelectorSyntaxError
      | Some matches \<Rightarrow>
          Inr (filter (\<lambda>e. name e \<noteq> None \<and> matches tag e) (descendants tag)))"

text \<open>
  A failure of an operation: \<open>LogError\<close> is the assertion failure that \<open>log_error\<close> ends
  with after it has written the log (the shared error channel); \<open>Uncaught\<close> is an exception
  that leaves the method as it was raised.  (\<open>log_error\<close> is taken to be called from a test
  method, as its search of the call stack expects.)
\<close>

datatype failure = LogError exn | Uncaught exn

section \<open>Locating elements\<close>

text \<open>
  The polling loop of \<open>web_scrap\<close>: parse the page, select the candidates, sort them by
  z-index from high to low and take the first; repeat while there is none and the deadline
  has not passed.  \<open>i\<close> counts the calls of \<open>get_current_DOM\<close>, \<open>n\<close> the rounds left.
\<close>

fun poll_container :: "base \<Rightarrow> string \<Rightarrow> nat \<Rightarrow> nat \<Rightarrow> exn + element option" where
  "poll_container self container_selector i 0 = Inr None"
| "poll_container self container_selector i (Suc n) =
     (case select self (page_source self i) container_selector of
        Inl e \<Rightarrow> Inl e
      | Inr found \<Rightarrow>
          (case zindex_sort found True of
             Inl e \<Rightarrow> Inl e
           | Inr containers \<Rightarrow>
               (case containers of
                  container # others \<Rightarrow> Inr (Some container)
                | [] \<Rightarrow> poll_container self container_selector (Suc i) n)))"

datatype found = Element element | Value pyvalue

definition text_contains :: "string \<Rightarrow> element \<Rightarrow> bool" where
  "text_contains term x = contains (lower term) (lower (get_text x))"

definition web_scrap :: "base \<Rightarrow> string \<Rightarrow> ScrapType \<Rightarrow> string option \<Rightarrow> bool \<Rightarrow> string option
                         \<Rightarrow> failure + found list" where
  "web_scrap self term scrap_type optional_term label main_container =
     (case poll_container self
             (case main_container of None \<Rightarrow> base_container | Some m \<Rightarrow> m) 0 (polls self) of
        Inl e \<Rightarrow> Inl (LogError e)
      | Inr None \<Rightarrow> Inl (LogError CouldntFindContainer)
      | Inr (Some container) \<Rightarrow>
          if scrap_type = TEXT then
            (if label then Inr (map Element (find_label_element term container))
             else (case select self container ''div > *'' of
                     Inl e \<Rightarrow> Inl (LogError e)
                   | Inr xs \<Rightarrow> Inr (map Element (filter (text_contains term) xs))))
          else if scrap_type = CSS_SELECTOR then
            (case select self container term of
               Inl e \<Rightarrow> Inl (LogError e)
             | Inr xs \<Rightarrow> Inr (map Element xs))
          else if scrap_type = MIXED \<and> optional_term \<noteq> None then
            (case select self container (the optional_term) of
               Inl e \<Rightarrow> Inl (LogError e)
             | Inr xs \<Rightarrow> Inr (map Element (filter (text_contains term) xs)))
          else if scrap_type = SCRIPT then
            (case execute_script self term of
               Inl e \<Rightarrow> Inl (LogError e)
             | Inr script_result \<Rightarrow>
                 Inr (case script_result of PyList vs \<Rightarrow> map Value vs | _ \<Rightarrow> []))
          else Inr [])"

section \<open>Existence check\<close>

text \<open>The closing test of \<open>element_exists\<close> on the length of the list found.\<close>

definition position_reached :: "int \<Rightarrow> nat \<Rightarrow> bool" where
  "position_reached position n = (if position = 0 then n > 0 else int n \<ge> position)"

definition element_exists :: "base \<Rightarrow> string \<Rightarrow> ScrapType \<Rightarrow> int \<Rightarrow> string \<Rightarrow> string option
                              \<Rightarrow> failure + bool" where
  "element_exists self term scrap_type position optional_term main_container =
     (if scrap_type = SCRIPT then
        (case execute_script self term of
           Inl e \<Rightarrow> Inl (Uncaught e)
         | Inr script_result \<Rightarrow> Inr (py_bool script_result))
      else if scrap_type \<noteq> MIXED \<and> scrap_type \<noteq> TEXT then
        (case select self (page_source self 0)
                (case main_container of None \<Rightarrow> base_container | Some m \<Rightarrow> m) of
           Inl e \<Rightarrow> Inl (Uncaught e)
         | Inr found \<Rightarrow>
             (case zindex_sort found True of
                Inl e \<Rightarrow> Inl (Uncaught e)
              | Inr [] \<Rightarrow> Inr False
              | Inr (container # others) \<Rightarrow>
                  (case find_element_by_xpath self (xpath_soup self container) of
                     Inl e \<Rightarrow> Inr False
                   | Inr container_element \<Rightarrow>
                       (case (if scrap_type = CSS_SELECTOR then Some By_CSS_SELECTOR
                              else if scrap_type = XPATH then Some By_XPATH
                              else None) of
                          None \<Rightarrow> Inl (Uncaught NameError)
                        | Some by \<Rightarrow>
                            (case find_elements self by term of
                               Inl e \<Rightarrow> Inl (Uncaught e)
                             | Inr element_list \<Rightarrow>
                                 Inr (position_reached position (length element_list)))))))
      else
        (case web_scrap self term scrap_type (Some optional_term) False main_container of
           Inl e \<Rightarrow> Inl e
         | Inr element_list \<Rightarrow> Inr (position_reached position (length element_list))))"

section \<open>Visibility filter\<close>

text \<open>Step 2 of \<open>filter_displayed_elements\<close>: every element is looked up in the live page.\<close>

fun selenium_elements :: "base \<Rightarrow> element list \<Rightarrow> exn + webelement list" where
  "selenium_elements self [] = Inr []"
| "selenium_elements self (x # xs) =
     (case find_element_by_xpath self (xpath_soup self x) of
        Inl e \<Rightarrow> Inl e
      | Inr w \<Rightarrow> (case selenium_elements self xs of Inl e \<Rightarrow> Inl e | Inr ws \<Rightarrow> Inr (w # ws)))"

definition filter_displayed_elements :: "base \<Rightarrow> element list \<Rightarrow> bool \<Rightarrow> exn + element list" where
  "filter_displayed_elements self elements reverse =
     (let indexed_elements = enumerate 0 elements
      in case selenium_elements self elements of
           Inl e \<Rightarrow> Inl e
         | Inr ws \<Rightarrow>
             (let indexed_selenium_elements = enumerate 0 ws;
                  filtered_selenium_indexes =
                    map fst (filter (\<lambda>x. is_displayed self (snd x)) indexed_selenium_elements);
                  filtered_elements =
                    map snd (filter (\<lambda>x. fst x \<in> set filtered_selenium_indexes) indexed_elements)
              in zindex_sort filtered_elements reverse))"

section \<open>Vocabulary of the properties\<close>

text \<open>The z-index of an element for which \<open>search_zindex\<close> returns.\<close>

definition zindex :: "element \<Rightarrow> int" where
  "zindex x = (case search_zindex x of Inr k \<Rightarrow> k | Inl e \<Rightarrow> 0)"

text \<open>\<open>element.parents\<close>: the enclosing tags, the nearest first, up to the root.\<close>

function parents :: "element \<Rightarrow> element list" where
  "parents (n, fs) =
     (case find_parent (n, fs) of None \<Rightarrow> [] | Some parent \<Rightarrow> parent # parents parent)"
  by pat_completeness auto
termination
  by (relation "measure (\<lambda>e. length (snd e))") (auto elim: find_parent.elims)

declare parents.simps [simp del]

text \<open>An element is displayed when its XPath resolves in the live page to a displayed element.\<close>

definition displayed :: "base \<Rightarrow> element \<Rightarrow> bool" where
  "displayed self x =
     (case find_element_by_xpath self (xpath_soup self x) of
        Inl e \<Rightarrow> False
      | Inr w \<Rightarrow> is_displayed self w)"

text \<open>
  The container \<open>web_scrap\<close> works in: what its polling loop ends with (\<open>None\<close> when the
  deadline passes first).
\<close>

definition chosen_container :: "base \<Rightarrow> string option \<Rightarrow> exn + element option" where
  "chosen_container self main_container =
     poll_container self (case main_container of None \<Rightarrow> base_container | Some m \<Rightarrow> m)
       0 (polls self)"

text \<open>The ranked candidates of the one snapshot that \<open>element_exists\<close> takes itself.\<close>

definition snapshot_containers :: "base \<Rightarrow> string option \<Rightarrow> exn + element list" where
  "snapshot_containers self main_container =
     (case select self (page_source self 0)
             (case main_container of None \<Rightarrow> base_container | Some m \<Rightarrow> m) of
        Inl e \<Rightarrow> Inl e
      | Inr found \<Rightarrow> zindex_sort found True)"

text \<open>The \<open>max(position, 1)\<close> of the existence check.\<close>

definition wanted :: "int \<Rightarrow> int" where
  "wanted position = max position 1"

text \<open>The decimal numeral of a natural number, as \<open>str(n)\<close> writes it.\<close>

fun decimal :: "nat \<Rightarrow> string" where
  "decimal n = (if n < 10 then [char_of (48 + n)]
                else decimal (n div 10) @ [char_of (48 + n mod 10)])"

declare decimal.simps [simp del]




section \<open>Example pages\<close>

definition layer :: "string \<Rightarrow> string \<Rightarrow> node" where
  "layer nm style = Tag nm [(''style'', style)] []"

definition stack :: "element list" where
  "stack = children (BeautifulSoup
     [layer ''a'' ''z-index:1;'', layer ''b'' ''z-index:2;'',
      layer ''c'' ''top:0; z-index: 1'', layer ''d'' ''color:red''])"

definition broken_stack :: "element list" where
  "broken_stack = children (BeautifulSoup [layer ''div'' ''z-index:auto;''])"

text \<open>
  A page with two dialogs; the second is on top.  In it a label, a text and an input
  follow each other; the dialog below holds another text of the same class.
\<close>

definition page :: element where
  "page = BeautifulSoup
     [Tag ''body'' []
        [Tag ''div'' [(''class'', ''tmodaldialog''), (''style'', ''z-index:10;'')]
           [Tag ''span'' [(''class'', ''tsay'')] [NavigableString ''Back'']],
         Tag ''div'' [(''class'', ''tmodaldialog''), (''style'', ''z-index: 20;'')]
           [Tag ''div'' [] [Tag ''label'' [] [NavigableString ''Name* '']],
            Tag ''span'' [(''class'', ''tsay'')] [NavigableString ''Hello World''],
            Tag ''input'' [] []]]]"

text \<open>
  A small selector engine: \<open>div > *\<close>, a class selector \<open>.c\<close> or a tag name; the empty
  selector is rejected.
\<close>

definition simple_css :: "string \<Rightarrow> (element \<Rightarrow> element \<Rightarrow> bool) option" where
  "simple_css selector =
     (if selector = [] then None
      else if selector = ''div > *''
        then Some (\<lambda>scope e. case find_parent e of
                                 None \<Rightarrow> False
                               | Some parent \<Rightarrow> name parent = Some ''div'')
      else if hd selector = CHR ''.''
        then Some (\<lambda>scope e. case fst e of
                                 Tag nm at cs \<Rightarrow> map_of at ''class'' = Some (tl selector)
                               | _ \<Rightarrow> False)
      else Some (\<lambda>scope e. name e = Some selector))"

text \<open>
  A session on that page: one round of polling, the live page has two elements of class
  \<open>tsay\<close> (numbers 1 and 2), every XPath resolves to element 0, and the only script that
  runs returns a list of one number.
\<close>

definition session :: base where
  "session = \<lparr>
     css = simple_css,
     xpath_soup = (\<lambda>e. ''/html/body/div[2]''),
     page_source = (\<lambda>i. page),
     polls = 1,
     execute_script = (\<lambda>script. if script = ''return [1]'' then Inr (PyList [PyInt 1])
                                else Inl WebDriverException),
     find_elements = (\<lambda>by selector. if selector = ''.tsay'' then Inr [1, 2] else Inr []),
     find_element_by_xpath = (\<lambda>path. Inr 0),
     is_displayed = (\<lambda>w. True) \<rparr>"

text \<open>The dialog on top, the string of its label, the block around it, its text and its input.\<close>

definition dialog :: element where
  "dialog = children (hd (children page)) ! 1"

definition label_block :: element where
  "label_block = hd (children dialog)"

definition label_string :: element where
  "label_string = hd (children (hd (children label_block)))"

definition dialog_text :: element where
  "dialog_text = children dialog ! 1"

definition dialog_input :: element where
  "dialog_input = children dialog ! 2"

text \<open>What \<open>simple_css\<close> makes of the selector \<open>.tsay\<close>.\<close>

definition tsay :: "element \<Rightarrow> element \<Rightarrow> bool" where
  "tsay scope e = (case fst e of
                     Tag nm at cs \<Rightarrow> map_of at ''class'' = Some ''tsay''
                   | _ \<Rightarrow> False)"

text \<open>The dialog below the one on top.\<close>

definition lower_dialog :: element where
  "lower_dialog = hd (children (hd (children page)))"

text \<open>
  A session in which the four layers of \<open>stack\<close> resolve to the live elements 1 to 4, of
  which the second is hidden.
\<close>

definition stack_session :: base where
  "stack_session = session \<lparr>
     xpath_soup := (\<lambda>e. case name e of Some nm \<Rightarrow> ''/'' @ nm | None \<Rightarrow> ''/''),
     find_element_by_xpath :=
       (\<lambda>path. if path = ''/a'' then Inr 1 else if path = ''/b'' then Inr 2
               else if path = ''/c'' then Inr 3 else if path = ''/d'' then Inr 4
               else Inl WebDriverException),
     is_displayed := (\<lambda>w. w \<noteq> 2) \<rparr>"

text \<open>
  A page with one dialog.  Two blocks hold the same label, the first also in a comment, and
  each is followed by an input.  Of the four elements of class \<open>tsay\<close> one has the text
  \<open>Hello World\<close>, one another text, one holds the word only inside a script and one only
  inside a comment; a paragraph without the class has the word in capitals.
\<close>

definition form_page :: element where
  "form_page = BeautifulSoup
     [Tag ''body'' []
        [Tag ''div'' [(''class'', ''tmodaldialog'')]
           [Tag ''div'' [] [NavigableString ''Name '', Comment ''Name ''],
            Tag ''input'' [(''id'', ''first'')] [],
            Tag ''div'' [] [NavigableString ''Name ''],
            Tag ''input'' [(''id'', ''second'')] [],
            Tag ''span'' [(''class'', ''tsay'')] [NavigableString ''Hello World''],
            Tag ''span'' [(''class'', ''tsay'')] [NavigableString ''Bye''],
            Tag ''p'' [] [NavigableString ''say HELLO''],
            Tag ''span'' [(''class'', ''tsay'')]
              [NavigableString ''x'', Tag ''script'' [] [NavigableString ''hello'']],
            Tag ''span'' [(''class'', ''tsay'')] [Comment ''hello'']]]]"

definition form :: element where
  "form = hd (children (hd (children form_page)))"

definition form_session :: base where
  "form_session = session \<lparr> page_source := (\<lambda>i. form_page) \<rparr>"

definition first_input :: element where
  "first_input = children form ! 1"

definition greeting :: element where
  "greeting = children form ! 4"

definition farewell :: element where
  "farewell = children form ! 5"

definition shout :: element where
  "shout = children form ! 6"

definition scripted :: element where
  "scripted = children form ! 7"

definition script_tag :: element where
  "script_tag = children scripted ! 1"

definition commented :: element where
  "commented = children form ! 8"

section \<open>Parents and descendants\<close>

lemma parents_unfold:
  "parents e = (case find_parent e of None \<Rightarrow> [] | Some p \<Rightarrow> p # parents p)"
  by (cases e) (simp add: parents.simps)

lemma siblings_from_mem:
  "e \<in> set (siblings_from nm at fs l r) \<longleftrightarrow>
     (\<exists>l' r'. r = l' @ fst e # r' \<and> snd e = (nm, at, l @ l', r') # fs)"
proof (induction r arbitrary: l)
  case Nil
  then show ?case by simp
next
  case (Cons s r0)
  show ?case
  proof
    assume "e \<in> set (siblings_from nm at fs l (s # r0))"
    then consider "e = (s, (nm, at, l, r0) # fs)" | "e \<in> set (siblings_from nm at fs (l @ [s]) r0)"
      by auto
    then show "\<exists>l' r'. s # r0 = l' @ fst e # r' \<and> snd e = (nm, at, l @ l', r') # fs"
    proof cases
      case 1
      then have "s # r0 = [] @ fst e # r0 \<and> snd e = (nm, at, l @ [], r0) # fs" by simp
      then show ?thesis by blast
    next
      case 2
      then obtain l' r' where "r0 = l' @ fst e # r'" "snd e = (nm, at, (l @ [s]) @ l', r') # fs"
        using Cons.IH [of "l @ [s]"] by blast
      then have "s # r0 = (s # l') @ fst e # r' \<and> snd e = (nm, at, l @ (s # l'), r') # fs"
        by simp
      then show ?thesis by blast
    qed
  next
    assume "\<exists>l' r'. s # r0 = l' @ fst e # r' \<and> snd e = (nm, at, l @ l', r') # fs"
    then obtain l' r' where eq: "s # r0 = l' @ fst e # r'" and ctx: "snd e = (nm, at, l @ l', r') # fs"
      by blast
    show "e \<in> set (siblings_from nm at fs l (s # r0))"
    proof (cases l')
      case Nil
      with eq ctx have "e = (s, (nm, at, l, r0) # fs)" by (cases e) simp
      then show ?thesis by simp
    next
      case (Cons x l'')
      with eq ctx have "r0 = l'' @ fst e # r'" "snd e = (nm, at, (l @ [s]) @ l'', r') # fs"
        by simp_all
      then have "e \<in> set (siblings_from nm at fs (l @ [s]) r0)"
        using Cons.IH [of "l @ [s]"] by blast
      then show ?thesis by simp
    qed
  qed
qed

lemma children_iff_parent: "e \<in> set (children c) \<longleftrightarrow> find_parent e = Some c"
proof (cases c)
  case (Pair n fs)
  obtain m gs where e: "e = (m, gs)" by (cases e)
  show ?thesis
  proof (cases n)
    case (Tag nm at cs)
    show ?thesis
    proof (cases gs)
      case Nil
      with Pair Tag e show ?thesis by (simp add: siblings_from_mem)
    next
      case (Cons g gs')
      obtain nm' at' l r where g: "g = (nm', at', l, r)" by (cases g)
      with Pair Tag e Cons show ?thesis by (auto simp: siblings_from_mem)
    qed
  next
    case (NavigableString s)
    with Pair e show ?thesis by (cases gs) auto
  next
    case (CData s)
    with Pair e show ?thesis by (cases gs) auto
  next
    case (Comment s)
    with Pair e show ?thesis by (cases gs) auto
  qed
qed


lemma descendants_set:
  "set (descendants c) = (\<Union>ch\<in>set (children c). insert ch (set (descendants ch)))"
proof (cases c)
  case (Pair n fs)
  then show ?thesis by (cases n) auto
qed

lemma parents_trans: "p \<in> set (parents e) \<Longrightarrow> set (parents p) \<subseteq> set (parents e)"
proof (induction e rule: parents.induct)
  case (1 n fs)
  show ?case
  proof (cases "find_parent (n, fs)")
    case None
    with "1.prems" show ?thesis by (simp add: parents.simps)
  next
    case (Some q)
    with "1.prems" have "p = q \<or> p \<in> set (parents q)" by (simp add: parents.simps)
    then have "set (parents p) \<subseteq> set (parents q)"
      using "1.IH" [OF Some] by auto
    with Some show ?thesis by (auto simp: parents.simps)
  qed
qed

lemma descendants_parents: "e \<in> set (descendants c) \<Longrightarrow> c \<in> set (parents e)"
proof (induction c rule: descendants.induct)
  case (1 nm at cs fs)
  let ?c = "(Tag nm at cs, fs)"
  from "1.prems" obtain ch where ch: "ch \<in> set (children ?c)"
    and e: "e = ch \<or> e \<in> set (descendants ch)"
    by (auto simp: descendants_set [of ?c])
  from ch have p: "find_parent ch = Some ?c" by (simp only: children_iff_parent)
  then have in_ch: "?c \<in> set (parents ch)" by (simp add: parents_unfold [of ch])
  from e show ?case
  proof
    assume "e = ch"
    with in_ch show ?thesis by simp
  next
    assume "e \<in> set (descendants ch)"
    then have "ch \<in> set (parents e)" using "1.IH" [OF ch] by simp
    then have "set (parents ch) \<subseteq> set (parents e)" by (rule parents_trans)
    with in_ch show ?thesis by blast
  qed
next
  case (2 s fs)
  then show ?case by simp
next
  case (3 s fs)
  then show ?case by simp
next
  case (4 s fs)
  then show ?case by simp
qed

lemma descendants_step:
  "q \<in> set (descendants c) \<Longrightarrow> e \<in> set (children q) \<Longrightarrow> e \<in> set (descendants c)"
proof (induction c rule: descendants.induct)
  case (1 nm at cs fs)
  let ?c = "(Tag nm at cs, fs)"
  from "1.prems"(1) obtain ch where ch: "ch \<in> set (children ?c)"
    and q: "q = ch \<or> q \<in> set (descendants ch)"
    by (auto simp: descendants_set [of ?c])
  have "e \<in> set (descendants ch)"
  proof (cases "q = ch")
    case True
    with "1.prems"(2) show ?thesis by (auto simp: descendants_set [of ch])
  next
    case False
    with q have "q \<in> set (descendants ch)" by simp
    then show ?thesis using "1.IH" [OF ch] "1.prems"(2) by simp
  qed
  with ch show ?case by (auto simp: descendants_set [of ?c])
next
  case (2 s fs)
  then show ?case by simp
next
  case (3 s fs)
  then show ?case by simp
next
  case (4 s fs)
  then show ?case by simp
qed

lemma parents_descendants: "c \<in> set (parents e) \<Longrightarrow> e \<in> set (descendants c)"
proof (induction e rule: parents.induct)
  case (1 n fs)
  show ?case
  proof (cases "find_parent (n, fs)")
    case None
    with "1.prems" show ?thesis by (simp add: parents.simps)
  next
    case (Some q)
    then have child: "(n, fs) \<in> set (children q)" by (simp only: children_iff_parent)
    from Some "1.prems" have "c = q \<or> c \<in> set (parents q)" by (simp add: parents.simps)
    then show ?thesis
    proof
      assume "c = q"
      with child show ?thesis by (auto simp: descendants_set [of q])
    next
      assume "c \<in> set (parents q)"
      then have "q \<in> set (descendants c)" using "1.IH" [OF Some] by simp
      then show ?thesis using child by (rule descendants_step)
    qed
  qed
qed

lemma descendants_iff_parents: "e \<in> set (descendants c) \<longleftrightarrow> c \<in> set (parents e)"
  using descendants_parents parents_descendants by blast

section \<open>Properties of the ranking\<close>

lemmas zindex_eval = layer_def search_zindex_def py_int_def strip_def isspace_def split_def
  isdigit_def digits_value_def BeautifulSoup_def

lemma sort_keys_Inr:
  "(\<forall>x\<in>set xs. \<not> isl (search_zindex x)) \<Longrightarrow> sort_keys xs = Inr (map zindex xs)"
  by (induction xs) (auto simp: zindex_def split: sum.splits)

lemma sort_keys_Inl:
  "x \<in> set xs \<Longrightarrow> isl (search_zindex x) \<Longrightarrow> isl (sort_keys xs)"
  by (induction xs) (auto split: sum.splits)

lemma insort_key_decorated:
  "insort_key fst (f x, x) (map (\<lambda>y. (f y, y)) ys) = map (\<lambda>y. (f y, y)) (insort_key f x ys)"
  by (induction ys) simp_all

lemma sort_key_decorated:
  "sort_key fst (map (\<lambda>y. (f y, y)) xs) = map (\<lambda>y. (f y, y)) (sort_key f xs)"
  by (induction xs) (simp_all add: insort_key_decorated)

lemma zip_decorated: "zip (map f xs) xs = map (\<lambda>y. (f y, y)) xs"
  by (induction xs) simp_all

text \<open>When every key can be computed, the sort is the stable sort on \<open>zindex\<close>.\<close>

lemma zindex_sort_Inr:
  assumes "\<forall>x\<in>set xs. \<not> isl (search_zindex x)"
  shows "zindex_sort xs reverse =
           Inr (if reverse then rev (sort_key zindex (rev xs)) else sort_key zindex xs)"
proof -
  have "rev (map (\<lambda>y. (zindex y, y)) xs) = map (\<lambda>y. (zindex y, y)) (rev xs)"
    by (simp add: rev_map)
  then show ?thesis
    using sort_keys_Inr [OF assms]
    by (simp add: zindex_sort_def list_sort_def zip_decorated sort_key_decorated rev_map comp_def)
qed

text \<open>When one key cannot be computed, the sort raises.\<close>

lemma zindex_sort_Inl:
  "x \<in> set xs \<Longrightarrow> isl (search_zindex x) \<Longrightarrow> isl (zindex_sort xs reverse)"
  using sort_keys_Inl [of x xs] by (auto simp: zindex_sort_def split: sum.splits)

lemma stack_zindex: "map search_zindex stack = [Inr 1, Inr 2, Inr 1, Inr 0]"
  by (simp add: stack_def zindex_eval)

lemma stack_sortable: "\<forall>x\<in>set stack. \<not> isl (search_zindex x)"
proof -
  have "\<forall>r\<in>set (map search_zindex stack). \<not> isl r"
    by (simp only: stack_zindex) simp
  then show ?thesis by simp
qed

text \<open>
  C3 (as amended).  For every list of candidates whose z-indexes can all be derived,
  \<open>zindex_sort\<close> with \<open>reverse=True\<close> returns a list in which an element never stands before
  one of greater z-index, and in which the elements of any one z-index stand in their
  original order.
\<close>

theorem zindex_sort_descending_stable:
  assumes "\<forall>x\<in>set xs. \<not> isl (search_zindex x)"
  shows "\<exists>ys. zindex_sort xs True = Inr ys
            \<and> sorted_wrt (\<lambda>a b. zindex a \<ge> zindex b) ys
            \<and> (\<forall>k. filter (\<lambda>y. zindex y = k) ys = filter (\<lambda>x. zindex x = k) xs)"
proof -
  let ?ys = "rev (sort_key zindex (rev xs))"
  have "sorted (map zindex (sort_key zindex (rev xs)))" by simp
  then have "sorted_wrt (\<lambda>a b. zindex a \<le> zindex b) (sort_key zindex (rev xs))"
    by (simp only: sorted_map)
  then have desc: "sorted_wrt (\<lambda>a b. zindex a \<ge> zindex b) ?ys"
    by (simp only: sorted_wrt_rev)
  have stable: "filter (\<lambda>y. zindex y = k) ?ys = filter (\<lambda>x. zindex x = k) xs" for k
    by (simp only: rev_filter [symmetric] sort_key_stable) (simp add: rev_filter)
  from desc stable show ?thesis by (simp add: zindex_sort_Inr [OF assms])
qed

text \<open>The stack of four layers with z-indexes 1, 2, 1, 0 satisfies the hypothesis.\<close>

theorem zindex_sort_descending_stable_witness:
  "\<exists>ys. zindex_sort stack True = Inr ys
        \<and> sorted_wrt (\<lambda>a b. zindex a \<ge> zindex b) ys
        \<and> (\<forall>k. filter (\<lambda>y. zindex y = k) ys = filter (\<lambda>x. zindex x = k) stack)"
  using zindex_sort_descending_stable [OF stack_sortable] .

text \<open>
  C3 as stated fails on a list with a candidate whose style reads \<open>z-index:auto;\<close>: the
  sort raises \<open>ValueError\<close> and returns no list.
\<close>

theorem zindex_sort_descending_counterexample:
  "\<not> (\<exists>ys. zindex_sort broken_stack True = Inr ys)"
proof -
  have "sort_keys broken_stack = Inl ValueError"
    by (simp add: broken_stack_def zindex_eval)
  then show ?thesis by (simp add: zindex_sort_def)
qed

text \<open>
  C9 (as amended).  For every input list whose z-indexes can all be derived and either
  value of the reverse flag, \<open>zindex_sort\<close> returns a permutation of its input.
\<close>

theorem zindex_sort_permutation:
  assumes "\<forall>x\<in>set xs. \<not> isl (search_zindex x)"
  shows "\<exists>ys. zindex_sort xs reverse = Inr ys \<and> mset ys = mset xs"
  by (simp add: zindex_sort_Inr [OF assms])

theorem zindex_sort_permutation_witness:
  "\<exists>ys. zindex_sort stack False = Inr ys \<and> mset ys = mset stack"
  using zindex_sort_permutation [OF stack_sortable, of False] .

text \<open>
  C9 as stated fails on the same list: with the flag unset, too, \<open>zindex_sort\<close> raises
  instead of returning a permutation.
\<close>

theorem zindex_sort_permutation_counterexample:
  "\<not> (\<exists>ys. zindex_sort broken_stack False = Inr ys \<and> mset ys = mset broken_stack)"
proof -
  have "sort_keys broken_stack = Inl ValueError"
    by (simp add: broken_stack_def zindex_eval)
  then show ?thesis by (simp add: zindex_sort_def)
qed

section \<open>Properties of the label lookup\<close>

text \<open>The loop of \<open>find_first_div_parent\<close> stops at the nearest \<open>div\<close>, the start included.\<close>

lemma find_first_div_parent_nearest:
  "find_first_div_parent e = find (\<lambda>p. name p = Some ''div'') (e # parents e)"
proof (induction e rule: find_first_div_parent.induct)
  case (1 current)
  show ?case
  proof (cases "name current = Some ''div''")
    case True
    then show ?thesis by (subst find_first_div_parent.simps) simp
  next
    case False
    show ?thesis
    proof (cases "find_parent current")
      case None
      with False have "find_first_div_parent current = None"
        by (subst find_first_div_parent.simps) simp
      with False None show ?thesis by (simp add: parents_unfold [of current])
    next
      case (Some parent)
      with False have "find_first_div_parent current = find_first_div_parent parent"
        by (subst find_first_div_parent.simps) simp
      with False Some "1.IH" [OF False Some] show ?thesis
        by (simp add: parents_unfold [of current])
    qed
  qed
qed

lemma find_all_text_strings:
  "t \<in> set (find_all_text pattern container) \<Longrightarrow> name t = None"
  by (cases t; cases "fst t") (auto simp: find_all_text_def)

text \<open>The strings the pattern accepts.\<close>

lemma label_pattern_iff:
  "label_pattern l s \<longleftrightarrow>
     (\<exists>spaces. spaces \<noteq> [] \<and> list_all isspace spaces \<and> (s = l @ spaces \<or> s = l @ ''*'' @ spaces))"
proof
  assume m: "label_pattern l s"
  then obtain rest where s: "s = l @ rest" by (auto simp: label_pattern_def prefix_def)
  show "\<exists>spaces. spaces \<noteq> [] \<and> list_all isspace spaces \<and> (s = l @ spaces \<or> s = l @ ''*'' @ spaces)"
  proof (cases "rest \<noteq> [] \<and> hd rest = CHR ''*''")
    case True
    then obtain spaces where r: "rest = ''*'' @ spaces" by (cases rest) simp_all
    with m s have "spaces \<noteq> [] \<and> list_all isspace spaces"
      by (simp add: label_pattern_def)
    with s r show ?thesis by blast
  next
    case False
    with m s show ?thesis by (auto simp: label_pattern_def)
  qed
next
  assume "\<exists>spaces. spaces \<noteq> [] \<and> list_all isspace spaces \<and> (s = l @ spaces \<or> s = l @ ''*'' @ spaces)"
  then obtain spaces where sp: "spaces \<noteq> []" "list_all isspace spaces"
    and s: "s = l @ spaces \<or> s = l @ ''*'' @ spaces" by blast
  from sp have "\<not> isspace (CHR ''*'') \<and> isspace (hd spaces)"
    by (cases spaces) (simp_all add: isspace_def)
  then have "hd spaces \<noteq> CHR ''*''" by metis
  with sp s show "label_pattern l s" by (auto simp: label_pattern_def)
qed

lemmas page_eval = page_def dialog_def lower_dialog_def label_block_def label_string_def
  dialog_text_def dialog_input_def BeautifulSoup_def parents.simps

lemma dialog_label_found:
  "find_all_text (label_pattern ''Name'') dialog = [label_string]"
  by (simp add: page_eval find_all_text_def label_pattern_def isspace_def)

text \<open>
  C4 (as amended).  For every label text and container, label-based lookup returns the
  first later sibling that is an \<open>input\<close> tag (whether or not it is the very next
  sibling) of the nearest \<open>div\<close> ancestor of the first string that matches the label
  pattern (the label text, an optional asterisk, then white space to the end); when no
  string matches, when the string has no \<open>div\<close> ancestor, or when no \<open>input\<close> follows that
  ancestor among its siblings, the result is the empty list.  The function is total: it
  raises nothing.
\<close>

theorem find_label_element_next_input:
  "find_label_element label_text container =
     (case find_all_text (label_pattern label_text) container of
        [] \<Rightarrow> []
      | t # others \<Rightarrow>
          (case find (\<lambda>p. name p = Some ''div'') (parents t) of
             None \<Rightarrow> []
           | Some d \<Rightarrow>
               (case find (\<lambda>s. name s = Some ''input'') (next_siblings d) of
                  None \<Rightarrow> []
                | Some i \<Rightarrow> [i])))"
proof (cases "find_all_text (label_pattern label_text) container")
  case Nil
  then show ?thesis by (simp add: find_label_element_def)
next
  case (Cons t others)
  then have "t \<in> set (find_all_text (label_pattern label_text) container)" by simp
  then have "name t = None" by (rule find_all_text_strings)
  then have "find_first_div_parent t = find (\<lambda>p. name p = Some ''div'') (parents t)"
    by (simp add: find_first_div_parent_nearest)
  with Cons show ?thesis
    by (simp add: find_label_element_def find_next_sibling_def split: option.split)
qed

text \<open>On the example page the label \<open>Name\<close> of the dialog leads to the dialog's input.\<close>

theorem find_label_element_next_input_witness:
  "find_label_element ''Name'' dialog = [dialog_input]"
proof -
  have "find (\<lambda>p. name p = Some ''div'') (parents label_string) = Some label_block"
    by (simp add: page_eval)
  moreover have "find (\<lambda>s. name s = Some ''input'') (next_siblings label_block) = Some dialog_input"
    by (simp add: page_eval)
  ultimately show ?thesis
    using find_label_element_next_input [of "''Name''" dialog]
    by (simp add: dialog_label_found)
qed

text \<open>
  C4 as stated fails on the example page: the nearest \<open>div\<close> ancestor of the label is
  followed first by a \<open>span\<close> and only then by the \<open>input\<close>, so no immediate next-sibling
  input exists, yet the lookup returns the input instead of the empty list.
\<close>

theorem find_label_element_immediate_counterexample:
  "find_all_text (label_pattern ''Name'') dialog = [label_string]
   \<and> find (\<lambda>p. name p = Some ''div'') (parents label_string) = Some label_block
   \<and> map name (next_siblings label_block) = [Some ''span'', Some ''input'']
   \<and> find_label_element ''Name'' dialog = [dialog_input]"
proof -
  have "find (\<lambda>p. name p = Some ''div'') (parents label_string) = Some label_block"
    by (simp add: page_eval)
  moreover have "map name (next_siblings label_block) = [Some ''span'', Some ''input'']"
    by (simp add: page_eval)
  moreover have "find_label_element ''Name'' dialog = [dialog_input]"
    by (simp add: page_eval find_label_element_def find_all_text_def label_pattern_def
        isspace_def find_next_sibling_def find_first_div_parent.simps)
  ultimately show ?thesis by (simp add: dialog_label_found)
qed

section \<open>Properties of locating and of the existence check\<close>

lemma web_scrap_chosen:
  "web_scrap self term scrap_type optional_term label main_container =
     (case chosen_container self main_container of
        Inl e \<Rightarrow> Inl (LogError e)
      | Inr None \<Rightarrow> Inl (LogError CouldntFindContainer)
      | Inr (Some container) \<Rightarrow>
          if scrap_type = TEXT then
            (if label then Inr (map Element (find_label_element term container))
             else (case select self container ''div > *'' of
                     Inl e \<Rightarrow> Inl (LogError e)
                   | Inr xs \<Rightarrow> Inr (map Element (filter (text_contains term) xs))))
          else if scrap_type = CSS_SELECTOR then
            (case select self container term of
               Inl e \<Rightarrow> Inl (LogError e)
             | Inr xs \<Rightarrow> Inr (map Element xs))
          else if scrap_type = MIXED \<and> optional_term \<noteq> None then
            (case select self container (the optional_term) of
               Inl e \<Rightarrow> Inl (LogError e)
             | Inr xs \<Rightarrow> Inr (map Element (filter (text_contains term) xs)))
          else if scrap_type = SCRIPT then
            (case execute_script self term of
               Inl e \<Rightarrow> Inl (LogError e)
             | Inr script_result \<Rightarrow>
                 Inr (case script_result of PyList vs \<Rightarrow> map Value vs | _ \<Rightarrow> []))
          else Inr [])"
  by (simp add: web_scrap_def chosen_container_def)

lemma select_valid:
  "css self selector = Some matches \<Longrightarrow>
   select self tag selector = Inr (filter (\<lambda>e. name e \<noteq> None \<and> matches tag e) (descendants tag))"
  by (simp add: select_def)

lemma select_invalid:
  "css self selector = None \<Longrightarrow> select self tag selector = Inl SelectorSyntaxError"
  by (simp add: select_def)

lemma position_reached_wanted:
  "0 \<le> position \<Longrightarrow> position_reached position n \<longleftrightarrow> wanted position \<le> int n"
  by (auto simp: position_reached_def wanted_def)








lemmas session_eval = session_def select_def simple_css_def zindex_sort_def list_sort_def
  layer_def search_zindex_def py_int_def strip_def isspace_def split_def isdigit_def
  digits_value_def page_eval chosen_container_def snapshot_containers_def base_container_def

lemma session_css_tsay: "css session ''.tsay'' = Some tsay"
  by (auto simp: session_def simple_css_def tsay_def fun_eq_iff split: node.split)

lemma session_chosen: "chosen_container session (Some ''.tmodaldialog'') = Inr (Some dialog)"
  by (simp add: session_eval)

lemma session_snapshot:
  "snapshot_containers session (Some ''.tmodaldialog'')
     = Inr [dialog, lower_dialog]"
  by (simp add: session_eval)

lemma dialog_tsay_hello:
  "filter (\<lambda>e. name e \<noteq> None \<and> tsay dialog e \<and> text_contains ''hello'' e) (descendants dialog)
     = [dialog_text]"
  by code_simp

lemmas form_eval = form_page_def form_def first_input_def greeting_def farewell_def shout_def
  scripted_def script_tag_def commented_def form_session_def

lemma form_css_tsay: "css form_session ''.tsay'' = Some tsay"
  using session_css_tsay by (simp add: form_session_def)

lemma form_chosen: "chosen_container form_session (Some ''.tmodaldialog'') = Inr (Some form)"
  by (simp add: form_eval session_def select_def simple_css_def zindex_sort_def list_sort_def
      search_zindex_def BeautifulSoup_def chosen_container_def)

text \<open>The text of a tag leaves out scripts and comments; a script has its own text.\<close>

lemma form_texts:
  "get_text greeting = ''Hello World'' \<and> get_text scripted = ''x''
   \<and> get_text script_tag = ''hello'' \<and> get_text commented = []"
  by code_simp

lemma form_tsay:
  "filter (\<lambda>e. name e \<noteq> None \<and> tsay form e) (descendants form)
     = [greeting, farewell, scripted, commented]"
  by code_simp




lemma element_exists_located:
  "scrap_type = TEXT \<or> scrap_type = MIXED \<Longrightarrow>
   element_exists self term scrap_type position optional_term main_container =
     (case web_scrap self term scrap_type (Some optional_term) False main_container of
        Inl f \<Rightarrow> Inl f
      | Inr element_list \<Rightarrow> Inr (position_reached position (length element_list)))"
  by (auto simp: element_exists_def)

lemma element_exists_driver:
  assumes "scrap_type = CSS_SELECTOR \<or> scrap_type = XPATH"
  shows "element_exists self term scrap_type position optional_term main_container =
     (case snapshot_containers self main_container of
        Inl e \<Rightarrow> Inl (Uncaught e)
      | Inr [] \<Rightarrow> Inr False
      | Inr (container # others) \<Rightarrow>
          (case find_element_by_xpath self (xpath_soup self container) of
             Inl e \<Rightarrow> Inr False
           | Inr container_element \<Rightarrow>
               (case find_elements self
                       (if scrap_type = CSS_SELECTOR then By_CSS_SELECTOR else By_XPATH) term of
                  Inl e \<Rightarrow> Inl (Uncaught e)
                | Inr element_list \<Rightarrow> Inr (position_reached position (length element_list)))))"
  using assms
  by (auto simp: element_exists_def snapshot_containers_def split: sum.splits list.splits)

lemma element_exists_script:
  "element_exists self term SCRIPT position optional_term main_container =
     (case execute_script self term of
        Inl e \<Rightarrow> Inl (Uncaught e)
      | Inr script_result \<Rightarrow> Inr (py_bool script_result))"
  by (simp add: element_exists_def)

text \<open>
  C1 (as amended).  For a position \<open>k \<ge> 0\<close>: with the strategies TextContains and Mixed,
  \<open>element_exists\<close> fails as \<open>web_scrap\<close> fails and otherwise is true exactly when
  \<open>web_scrap\<close> finds at least \<open>max(k, 1)\<close> matches; with CssSelector and XPath, once the
  snapshot has a container and that container is found in the live page, it is true exactly
  when the driver's search of the live page finds at least \<open>max(k, 1)\<close> elements; with
  ScriptEvaluated it is the truth value of the script's result, whatever \<open>k\<close> is.
\<close>

theorem element_exists_position:
  assumes "0 \<le> position"
  shows "(scrap_type = TEXT \<or> scrap_type = MIXED \<longrightarrow>
            element_exists self trm scrap_type position optional_term main_container =
              (case web_scrap self trm scrap_type (Some optional_term) False main_container of
                 Inl f \<Rightarrow> Inl f
               | Inr element_list \<Rightarrow> Inr (wanted position \<le> int (length element_list))))
       \<and> (scrap_type = CSS_SELECTOR \<or> scrap_type = XPATH \<longrightarrow>
            snapshot_containers self main_container = Inr (container # others) \<longrightarrow>
            find_element_by_xpath self (xpath_soup self container) = Inr container_element \<longrightarrow>
            find_elements self (if scrap_type = CSS_SELECTOR then By_CSS_SELECTOR else By_XPATH)
                trm = Inr element_list \<longrightarrow>
            element_exists self trm scrap_type position optional_term main_container =
              Inr (wanted position \<le> int (length element_list)))
       \<and> (scrap_type = SCRIPT \<longrightarrow>
            execute_script self trm = Inr script_result \<longrightarrow>
            element_exists self trm scrap_type position optional_term main_container =
              Inr (py_bool script_result))"
proof (intro conjI impI)
  assume "scrap_type = TEXT \<or> scrap_type = MIXED"
  then show "element_exists self trm scrap_type position optional_term main_container =
      (case web_scrap self trm scrap_type (Some optional_term) False main_container of
         Inl f \<Rightarrow> Inl f
       | Inr element_list \<Rightarrow> Inr (wanted position \<le> int (length element_list)))"
    by (simp add: element_exists_located position_reached_wanted [OF assms] split: sum.split)
next
  assume "scrap_type = CSS_SELECTOR \<or> scrap_type = XPATH"
    and "snapshot_containers self main_container = Inr (container # others)"
    and "find_element_by_xpath self (xpath_soup self container) = Inr container_element"
    and "find_elements self (if scrap_type = CSS_SELECTOR then By_CSS_SELECTOR else By_XPATH)
           trm = Inr element_list"
  then show "element_exists self trm scrap_type position optional_term main_container =
      Inr (wanted position \<le> int (length element_list))"
    by (simp add: element_exists_driver position_reached_wanted [OF assms])
next
  assume "scrap_type = SCRIPT" and "execute_script self trm = Inr script_result"
  then show "element_exists self trm scrap_type position optional_term main_container =
      Inr (py_bool script_result)"
    by (simp add: element_exists_script)
qed

lemma session_script: "execute_script session ''return [1]'' = Inr (PyList [PyInt 1])"
  by (simp add: session_def)

lemma session_body: "\<exists>body. chosen_container session None = Inr (Some body)"
  by (simp add: session_eval)

lemma session_located:
  "web_scrap session ''hello'' MIXED (Some ''.tsay'') False (Some ''.tmodaldialog'')
     = Inr [Element dialog_text]"
  using session_chosen session_css_tsay dialog_tsay_hello
  by (simp add: web_scrap_chosen select_valid conj_commute conj_left_commute)

text \<open>
  On the example session: one Mixed match reaches position 1; the two live elements of
  class \<open>tsay\<close> reach position 2 and not 3; the script's non-empty list is true.
\<close>

theorem element_exists_position_witness:
  "element_exists session ''hello'' MIXED 1 ''.tsay'' (Some ''.tmodaldialog'') = Inr True
   \<and> element_exists session ''.tsay'' CSS_SELECTOR 2 [] (Some ''.tmodaldialog'') = Inr True
   \<and> element_exists session ''.tsay'' CSS_SELECTOR 3 [] (Some ''.tmodaldialog'') = Inr False
   \<and> element_exists session ''return [1]'' SCRIPT 0 [] None = Inr True"
proof -
  have a: "element_exists session ''hello'' MIXED 1 ''.tsay'' (Some ''.tmodaldialog'') = Inr True"
    using element_exists_position [where position = 1 and scrap_type = MIXED and self = session
        and trm = "''hello''" and optional_term = "''.tsay''"
        and main_container = "Some ''.tmodaldialog''"]
    by (simp add: session_located wanted_def)
  have x: "find_element_by_xpath session (xpath_soup session dialog) = Inr 0"
    and e: "find_elements session By_CSS_SELECTOR ''.tsay'' = Inr [1, 2]"
    by (simp_all add: session_def)
  have b: "element_exists session ''.tsay'' CSS_SELECTOR 2 [] (Some ''.tmodaldialog'') = Inr True"
    using element_exists_position [where position = 2 and scrap_type = CSS_SELECTOR
        and self = session and main_container = "Some ''.tmodaldialog''" and container = dialog
        and others = "[lower_dialog]" and container_element = 0 and trm = "''.tsay''"
        and element_list = "[1, 2]" and optional_term = "[]"] session_snapshot x e
    by (simp add: wanted_def)
  have c: "element_exists session ''.tsay'' CSS_SELECTOR 3 [] (Some ''.tmodaldialog'') = Inr False"
    using element_exists_position [where position = 3 and scrap_type = CSS_SELECTOR
        and self = session and main_container = "Some ''.tmodaldialog''" and container = dialog
        and others = "[lower_dialog]" and container_element = 0 and trm = "''.tsay''"
        and element_list = "[1, 2]" and optional_term = "[]"] session_snapshot x e
    by (simp add: wanted_def)
  have d: "element_exists session ''return [1]'' SCRIPT 0 [] None = Inr True"
    using element_exists_position [where position = 0 and scrap_type = SCRIPT
        and self = session and trm = "''return [1]''" and optional_term = "[]"
        and main_container = None and script_result = "PyList [PyInt 1]"] session_script
    by simp
  from a b c d show ?thesis by simp
qed

text \<open>
  C1 as stated fails for ScriptEvaluated: the script returns a list of one element, so the
  strategy produces one match, and yet the check for position 2 returns true.
\<close>

theorem element_exists_script_counterexample:
  "web_scrap session ''return [1]'' SCRIPT (Some []) False None = Inr [Value (PyInt 1)]
   \<and> element_exists session ''return [1]'' SCRIPT 2 [] None = Inr True"
proof -
  from session_body obtain body where "chosen_container session None = Inr (Some body)" ..
  then have "web_scrap session ''return [1]'' SCRIPT (Some []) False None = Inr [Value (PyInt 1)]"
    by (simp add: web_scrap_chosen session_script)
  then show ?thesis by (simp add: element_exists_script session_script)
qed


lemma zindex_sort_length: "zindex_sort xs reverse = Inr ys \<Longrightarrow> length ys = length xs"
proof -
  assume r: "zindex_sort xs reverse = Inr ys"
  then obtain ks where ks: "sort_keys xs = Inr ks"
    by (auto simp: zindex_sort_def split: sum.splits)
  have "length ks = length xs" using ks
    by (induction xs arbitrary: ks) (auto split: sum.splits)
  with r ks show ?thesis by (auto simp: zindex_sort_def list_sort_def)
qed

lemma poll_container_None:
  "poll_container self selector i n = Inr None \<longleftrightarrow>
     (\<forall>j<n. select self (page_source self (i + j)) selector = Inr [])"
proof (induction n arbitrary: i)
  case 0
  then show ?case by simp
next
  case (Suc n)
  have split_all: "(\<forall>j<Suc n. P j) \<longleftrightarrow> P 0 \<and> (\<forall>j<n. P (Suc j))" for P
    by (metis less_Suc_eq_0_disj)
  show ?case
  proof (cases "select self (page_source self i) selector")
    case (Inl e)
    then show ?thesis by (auto simp: split_all)
  next
    case (Inr found)
    show ?thesis
    proof (cases "zindex_sort found True")
      case (Inl e)
      then have "found \<noteq> []" by (auto simp: zindex_sort_def)
      with Inl Inr show ?thesis by (auto simp: split_all)
    next
      case sorted: (Inr containers)
      from zindex_sort_length [OF sorted] have "containers = [] \<longleftrightarrow> found = []"
        by (metis length_0_conv)
      with Inr sorted Suc.IH [of "Suc i"] show ?thesis
        by (cases containers) (auto simp: split_all)
    qed
  qed
qed

text \<open>
  C8 (as amended).  In the locate operation the CssSelector strategy returns exactly the
  tags below the chosen container that match the selector, in document order, and the XPath
  strategy returns the empty list.  In the exists operation CssSelector and XPath take the
  same path: once the snapshot has a container and it is found in the live page, the count
  is that of the driver's \<open>find_elements\<close> on the whole live page, for both strategies.
\<close>

theorem css_selector_scope:
  "(chosen_container self main_container = Inr (Some container) \<longrightarrow>
      css self trm = Some matches \<longrightarrow>
        web_scrap self trm CSS_SELECTOR optional_term label main_container =
          Inr (map Element
                (filter (\<lambda>e. name e \<noteq> None \<and> matches container e) (descendants container)))
      \<and> (\<forall>e. e \<in> set (filter (\<lambda>e. name e \<noteq> None \<and> matches container e)
                         (descendants container)) \<longleftrightarrow>
               container \<in> set (parents e) \<and> name e \<noteq> None \<and> matches container e))
   \<and> (chosen_container self main_container = Inr (Some container) \<longrightarrow>
        web_scrap self trm XPATH optional_term label main_container = Inr [])
   \<and> (scrap_type = CSS_SELECTOR \<or> scrap_type = XPATH \<longrightarrow>
        snapshot_containers self main_container = Inr (first # others) \<longrightarrow>
        find_element_by_xpath self (xpath_soup self first) = Inr container_element \<longrightarrow>
        element_exists self trm scrap_type position optional_text main_container =
          (case find_elements self
                  (if scrap_type = CSS_SELECTOR then By_CSS_SELECTOR else By_XPATH) trm of
             Inl e \<Rightarrow> Inl (Uncaught e)
           | Inr element_list \<Rightarrow> Inr (position_reached position (length element_list))))"
  by (auto simp: web_scrap_chosen select_valid descendants_iff_parents element_exists_driver)

lemma dialog_tsay: "select session dialog ''.tsay'' = Inr [dialog_text]"
proof -
  have "filter (\<lambda>e. name e \<noteq> None \<and> tsay dialog e) (descendants dialog) = [dialog_text]"
    by code_simp
  then show ?thesis by (simp only: select_valid [OF session_css_tsay])
qed

lemma session_live:
  "find_element_by_xpath session (xpath_soup session dialog) = Inr 0"
  "find_elements session By_CSS_SELECTOR ''.tsay'' = Inr [1, 2]"
  by (simp_all add: session_def)

text \<open>
  On the example session the locate operation finds the one \<open>tsay\<close> of the dialog on top,
  and the exists operation counts the two of the live page.
\<close>

theorem css_selector_scope_witness:
  "web_scrap session ''.tsay'' CSS_SELECTOR None False (Some ''.tmodaldialog'')
     = Inr [Element dialog_text]
   \<and> web_scrap session ''//span'' XPATH None False (Some ''.tmodaldialog'') = Inr []
   \<and> element_exists session ''.tsay'' CSS_SELECTOR 2 [] (Some ''.tmodaldialog'') = Inr True"
proof -
  have "filter (\<lambda>e. name e \<noteq> None \<and> tsay dialog e) (descendants dialog) = [dialog_text]"
    using dialog_tsay by (simp add: select_valid [OF session_css_tsay])
  then show ?thesis
    using css_selector_scope [where self = session and main_container = "Some ''.tmodaldialog''"
        and container = dialog and trm = "''.tsay''" and matches = tsay
        and optional_term = None and label = False and scrap_type = CSS_SELECTOR
        and first = dialog and others = "[lower_dialog]" and container_element = 0
        and position = 2 and optional_text = "[]"]
      css_selector_scope [where self = session and main_container = "Some ''.tmodaldialog''"
        and container = dialog and trm = "''//span''"
        and optional_term = None and label = False]
      session_chosen session_css_tsay session_snapshot session_live
    by (simp add: position_reached_def)
qed

text \<open>
  C8 as stated fails for the exists operation: the chosen container has one descendant
  that matches \<open>.tsay\<close>, and the check for two matches returns true, because it counts the
  matches of the whole live page.
\<close>

theorem css_selector_exists_counterexample:
  "chosen_container session (Some ''.tmodaldialog'') = Inr (Some dialog)
   \<and> select session dialog ''.tsay'' = Inr [dialog_text]
   \<and> element_exists session ''.tsay'' CSS_SELECTOR 2 [] (Some ''.tmodaldialog'') = Inr True"
  using session_chosen dialog_tsay session_snapshot session_live
  by (simp add: element_exists_driver position_reached_def)

text \<open>
  C10 (as amended).  Label-based lookup returns a list of at most one element, so a locate
  call under the TextContains strategy with the label flag set never yields more than one
  match, however many strings match the label pattern.  Under every other strategy the
  label flag is not read: the call returns what it returns without the flag.
\<close>

theorem label_lookup_at_most_one:
  "length (find_label_element label_text container) \<le> 1
   \<and> (\<forall>found. web_scrap self label_text TEXT optional_term True main_container = Inr found
         \<longrightarrow> length found \<le> 1)
   \<and> (scrap_type \<noteq> TEXT \<longrightarrow>
        web_scrap self label_text scrap_type optional_term True main_container
          = web_scrap self label_text scrap_type optional_term False main_container)"
proof -
  have one: "length (find_label_element l c) \<le> 1" for l c
    by (simp add: find_label_element_def split: list.split option.split)
  have "length found \<le> 1"
    if "web_scrap self label_text TEXT optional_term True main_container = Inr found" for found
  proof -
    from that obtain c where "found = map Element (find_label_element label_text c)"
      by (auto simp: web_scrap_chosen split: sum.splits option.splits)
    with one show ?thesis by simp
  qed
  moreover have "web_scrap self label_text scrap_type optional_term True main_container
                   = web_scrap self label_text scrap_type optional_term False main_container"
    if "scrap_type \<noteq> TEXT"
    using that by (simp add: web_scrap_chosen split: sum.split option.split)
  ultimately show ?thesis using one by blast
qed

lemma form_labels:
  "map fst (find_all_text (label_pattern ''Name'') form)
     = [NavigableString ''Name '', Comment ''Name '', NavigableString ''Name '']"
  by code_simp

lemma form_label:
  "web_scrap form_session ''Name'' TEXT None True (Some ''.tmodaldialog'')
     = Inr [Element first_input]"
proof -
  have "find_label_element ''Name'' form = [first_input]"
    by code_simp
  then show ?thesis using form_chosen by (simp add: web_scrap_chosen)
qed

text \<open>
  On the page with one dialog three strings match the label \<open>Name\<close>, two of the text and
  one comment; the lookup returns the input after the block of the first.
\<close>

theorem label_lookup_at_most_one_witness:
  "length (find_all_text (label_pattern ''Name'') form) = 3
   \<and> web_scrap form_session ''Name'' TEXT None True (Some ''.tmodaldialog'')
       = Inr [Element first_input]
   \<and> length [Element first_input] \<le> 1
   \<and> length (find_label_element ''Name'' form) \<le> 1
   \<and> web_scrap form_session ''.tsay'' CSS_SELECTOR None True (Some ''.tmodaldialog'')
       = web_scrap form_session ''.tsay'' CSS_SELECTOR None False (Some ''.tmodaldialog'')"
proof -
  have "length (map fst (find_all_text (label_pattern ''Name'') form)) = 3"
    by (simp only: form_labels) simp
  then have three: "length (find_all_text (label_pattern ''Name'') form) = 3" by simp
  from label_lookup_at_most_one [of "''Name''" form form_session None "Some ''.tmodaldialog''"]
    label_lookup_at_most_one [of "''.tsay''" form form_session None "Some ''.tmodaldialog''"
      CSS_SELECTOR]
    form_label three
  show ?thesis by simp
qed

text \<open>
  C10 as stated fails: under the CssSelector strategy a locate call with the label flag set
  returns the four elements of class \<open>tsay\<close>.
\<close>

theorem label_flag_unread_counterexample:
  "web_scrap form_session ''.tsay'' CSS_SELECTOR None True (Some ''.tmodaldialog'')
     = Inr [Element greeting, Element farewell, Element scripted, Element commented]"
  using form_chosen form_css_tsay form_tsay
  by (simp add: web_scrap_chosen select_valid)

lemma web_scrap_failure:
  "web_scrap self trm scrap_type optional_term label main_container = Inl f \<Longrightarrow> \<exists>e. f = LogError e"
  by (auto simp: web_scrap_chosen split: sum.splits option.splits if_splits)

text \<open>
  C7 (as amended).  Every failure of the locate operation is one assertion failure raised by
  \<open>log_error\<close>, and no list comes with it: a container missing at the deadline, a failure
  while the container is sought (selector or z-index), a rejected selector of the strategy
  and a script error all end so.  Parameters a strategy cannot use (XPath, or Mixed without
  a secondary term) are no failure: the result is the empty list.  The exists operation
  passes the failure of locate on for TextContains and Mixed; for CssSelector and XPath a
  missing container, or one not found in the live page, gives false instead of a failure,
  and the other errors, like a script error under ScriptEvaluated, leave the method as they
  were raised.  No failure makes a call try another strategy.
\<close>

theorem failure_is_fatal:
  "(\<forall>f. web_scrap self trm scrap_type optional_term label main_container = Inl f \<longrightarrow>
         (\<exists>e. f = LogError e))
   \<and> (chosen_container self main_container = Inr None \<longrightarrow>
        web_scrap self trm scrap_type optional_term label main_container
          = Inl (LogError CouldntFindContainer))
   \<and> (\<forall>e. chosen_container self main_container = Inl e \<longrightarrow>
        web_scrap self trm scrap_type optional_term label main_container = Inl (LogError e))
   \<and> (chosen_container self main_container = Inr (Some container) \<longrightarrow>
        (scrap_type = CSS_SELECTOR \<and> css self trm = None \<longrightarrow>
           web_scrap self trm scrap_type optional_term label main_container
             = Inl (LogError SelectorSyntaxError))
      \<and> (scrap_type = MIXED \<and> optional_term = Some selector \<and> css self selector = None \<longrightarrow>
           web_scrap self trm scrap_type optional_term label main_container
             = Inl (LogError SelectorSyntaxError))
      \<and> (scrap_type = TEXT \<and> \<not> label \<and> css self ''div > *'' = None \<longrightarrow>
           web_scrap self trm scrap_type optional_term label main_container
             = Inl (LogError SelectorSyntaxError))
      \<and> (\<forall>e. scrap_type = SCRIPT \<and> execute_script self trm = Inl e \<longrightarrow>
           web_scrap self trm scrap_type optional_term label main_container = Inl (LogError e))
      \<and> (scrap_type = XPATH \<or> (scrap_type = MIXED \<and> optional_term = None) \<longrightarrow>
           web_scrap self trm scrap_type optional_term label main_container = Inr []))
   \<and> (scrap_type = TEXT \<or> scrap_type = MIXED \<longrightarrow>
        (\<forall>f. web_scrap self trm scrap_type (Some optional_text) False main_container = Inl f \<longrightarrow>
           element_exists self trm scrap_type position optional_text main_container = Inl f))
   \<and> (scrap_type = CSS_SELECTOR \<or> scrap_type = XPATH \<longrightarrow>
        (snapshot_containers self main_container = Inr [] \<longrightarrow>
           element_exists self trm scrap_type position optional_text main_container = Inr False)
      \<and> (\<forall>e. snapshot_containers self main_container = Inr (first # others) \<and>
             find_element_by_xpath self (xpath_soup self first) = Inl e \<longrightarrow>
           element_exists self trm scrap_type position optional_text main_container = Inr False)
      \<and> (\<forall>e. snapshot_containers self main_container = Inl e \<longrightarrow>
           element_exists self trm scrap_type position optional_text main_container
             = Inl (Uncaught e))
      \<and> (\<forall>e w. snapshot_containers self main_container = Inr (first # others) \<and>
             find_element_by_xpath self (xpath_soup self first) = Inr w \<and>
             find_elements self (if scrap_type = CSS_SELECTOR then By_CSS_SELECTOR else By_XPATH)
               trm = Inl e \<longrightarrow>
           element_exists self trm scrap_type position optional_text main_container
             = Inl (Uncaught e)))
   \<and> (\<forall>e. scrap_type = SCRIPT \<and> execute_script self trm = Inl e \<longrightarrow>
        element_exists self trm scrap_type position optional_text main_container
          = Inl (Uncaught e))"
proof (intro conjI allI impI)
  fix f
  assume "web_scrap self trm scrap_type optional_term label main_container = Inl f"
  then show "\<exists>e. f = LogError e" by (rule web_scrap_failure)
qed (auto simp: web_scrap_chosen select_invalid element_exists_located element_exists_driver
    element_exists_script)

lemma session_nothing:
  "chosen_container session (Some ''.nothing'') = Inr None"
  "snapshot_containers session (Some ''.nothing'') = Inr []"
  by (simp_all add: session_eval)

lemma session_rejects:
  "css session [] = None"
  "execute_script session ''throw 1'' = Inl WebDriverException"
  by (simp_all add: session_def simple_css_def)

text \<open>
  On the example session: no container, a rejected selector and a throwing script.
\<close>

theorem failure_is_fatal_witness:
  "web_scrap session ''hello'' TEXT None False (Some ''.nothing'')
     = Inl (LogError CouldntFindContainer)
   \<and> web_scrap session [] CSS_SELECTOR None False (Some ''.tmodaldialog'')
     = Inl (LogError SelectorSyntaxError)
   \<and> web_scrap session ''throw 1'' SCRIPT None False (Some ''.tmodaldialog'')
     = Inl (LogError WebDriverException)
   \<and> element_exists session ''hello'' TEXT 0 [] (Some ''.nothing'')
     = Inl (LogError CouldntFindContainer)
   \<and> element_exists session ''throw 1'' SCRIPT 0 [] None = Inl (Uncaught WebDriverException)"
proof -
  note a = failure_is_fatal [where self = session and main_container = "Some ''.nothing''"
      and trm = "''hello''" and scrap_type = TEXT and optional_term = None and label = False
      and optional_text = "[]" and position = 0]
  note b = failure_is_fatal [where self = session and main_container = "Some ''.tmodaldialog''"
      and trm = "[]" and scrap_type = CSS_SELECTOR and optional_term = None and label = False
      and container = dialog]
  note c = failure_is_fatal [where self = session and main_container = "Some ''.tmodaldialog''"
      and trm = "''throw 1''" and scrap_type = SCRIPT and optional_term = None and label = False
      and container = dialog]
  note d = failure_is_fatal [where self = session and main_container = None
      and trm = "''throw 1''" and scrap_type = SCRIPT and optional_text = "[]" and position = 0]
  have 1: "web_scrap session ''hello'' TEXT None False (Some ''.nothing'')
             = Inl (LogError CouldntFindContainer)"
    using a session_nothing by simp
  have "web_scrap session ''hello'' TEXT (Some []) False (Some ''.nothing'')
             = Inl (LogError CouldntFindContainer)"
    using session_nothing by (simp add: web_scrap_chosen)
  then have 4: "element_exists session ''hello'' TEXT 0 [] (Some ''.nothing'')
             = Inl (LogError CouldntFindContainer)"
    using a by simp
  have 2: "web_scrap session [] CSS_SELECTOR None False (Some ''.tmodaldialog'')
             = Inl (LogError SelectorSyntaxError)"
    using b session_chosen session_rejects by simp
  have 3: "web_scrap session ''throw 1'' SCRIPT None False (Some ''.tmodaldialog'')
             = Inl (LogError WebDriverException)"
    using c session_chosen session_rejects by simp
  have 5: "element_exists session ''throw 1'' SCRIPT 0 [] None = Inl (Uncaught WebDriverException)"
    using d session_rejects by simp
  from 1 2 3 4 5 show ?thesis by simp
qed

text \<open>
  C7 as stated fails: with no container in the snapshot the exists operation under
  CssSelector returns false and raises nothing, and the locate operation under Mixed
  without a secondary term returns the empty list and raises nothing.
\<close>

theorem failure_is_fatal_counterexample:
  "snapshot_containers session (Some ''.nothing'') = Inr []
   \<and> element_exists session ''.tsay'' CSS_SELECTOR 0 [] (Some ''.nothing'') = Inr False
   \<and> web_scrap session ''hello'' MIXED None False (Some ''.tmodaldialog'') = Inr []"
  using session_nothing session_chosen
  by (simp add: element_exists_driver web_scrap_chosen)

section \<open>Properties of the visibility filter\<close>

lemma selenium_elements_Inr:
  "(\<forall>x\<in>set xs. \<not> isl (find_element_by_xpath self (xpath_soup self x))) \<Longrightarrow>
   selenium_elements self xs =
     Inr (map (\<lambda>x. projr (find_element_by_xpath self (xpath_soup self x))) xs)"
  by (induction xs) (auto split: sum.splits)

lemma selenium_elements_Inl:
  "x \<in> set xs \<Longrightarrow> isl (find_element_by_xpath self (xpath_soup self x)) \<Longrightarrow>
   isl (selenium_elements self xs)"
  by (induction xs) (auto split: sum.splits)

lemma enumerate_indexes:
  "i \<in> set (map fst (filter Q (enumerate m ws))) \<Longrightarrow> m \<le> i"
  by (auto simp: in_set_enumerate_eq)

text \<open>
  Steps 3 to 5 of \<open>filter_displayed_elements\<close> keep the elements at the indexes of the
  displayed live elements.
\<close>

lemma filter_by_index:
  "map snd (filter (\<lambda>p. fst p \<in> set (map fst (filter (\<lambda>q. P (snd q)) (enumerate n (map g xs)))))
              (enumerate n xs))
     = filter (\<lambda>x. P (g x)) xs"
proof (induction xs arbitrary: n)
  case Nil
  then show ?case by simp
next
  case (Cons x xs)
  define S' where "S' = set (map fst (filter (\<lambda>q. P (snd q)) (enumerate (Suc n) (map g xs))))"
  define S where "S = set (map fst (filter (\<lambda>q. P (snd q)) (enumerate n (map g (x # xs)))))"
  have S: "S = (if P (g x) then insert n S' else S')" by (simp add: S_def S'_def)
  have n: "n \<notin> S'" using enumerate_indexes [of n _ "Suc n"] by (fastforce simp: S'_def)
  have tail: "filter (\<lambda>p. fst p \<in> S) (enumerate (Suc n) xs)
                = filter (\<lambda>p. fst p \<in> S') (enumerate (Suc n) xs)"
  proof (rule filter_cong [OF refl])
    fix p assume "p \<in> set (enumerate (Suc n) xs)"
    then have "fst p \<noteq> n" by (auto simp: in_set_enumerate_eq)
    then show "(fst p \<in> S) = (fst p \<in> S')" by (simp add: S)
  qed
  have head: "n \<in> S \<longleftrightarrow> P (g x)" using n by (simp add: S)
  have ih: "map snd (filter (\<lambda>p. fst p \<in> S') (enumerate (Suc n) xs)) = filter (\<lambda>x. P (g x)) xs"
    unfolding S'_def by (rule Cons.IH)
  have "map snd (filter (\<lambda>p. fst p \<in> S) (enumerate n (x # xs)))
          = (if P (g x) then [x] else []) @ map snd (filter (\<lambda>p. fst p \<in> S') (enumerate (Suc n) xs))"
    using head tail by simp
  then have "map snd (filter (\<lambda>p. fst p \<in> S) (enumerate n (x # xs))) = filter (\<lambda>x. P (g x)) (x # xs)"
    by (simp add: ih)
  then show ?case unfolding S_def .
qed

lemma filter_displayed_elements_sort:
  assumes "\<forall>x\<in>set xs. \<not> isl (find_element_by_xpath self (xpath_soup self x))"
  shows "filter_displayed_elements self xs reverse = zindex_sort (filter (displayed self) xs) reverse"
proof -
  let ?g = "\<lambda>x. projr (find_element_by_xpath self (xpath_soup self x))"
  have d: "filter (\<lambda>x. is_displayed self (?g x)) xs = filter (displayed self) xs"
    using assms by (intro filter_cong) (auto simp: displayed_def split: sum.splits)
  show ?thesis
    using selenium_elements_Inr [OF assms]
    by (simp only: filter_displayed_elements_def Let_def sum.case filter_by_index d)
qed

text \<open>
  C6 (as amended).  For every input sequence whose elements all resolve in the live page
  and whose displayed elements all have a z-index that can be derived, visibility filtering
  returns exactly the displayed elements, ranked by z-index: descending when the reverse
  flag is set, ascending when it is not (the default), and in both cases with elements of
  equal z-index in the original relative order of the survivors.
\<close>

theorem filter_displayed_elements_ranked:
  assumes "\<forall>x\<in>set elements. \<not> isl (find_element_by_xpath self (xpath_soup self x))"
    and "\<forall>x\<in>set elements. displayed self x \<longrightarrow> \<not> isl (search_zindex x)"
  shows "\<exists>ys. filter_displayed_elements self elements reverse = Inr ys
            \<and> mset ys = mset (filter (displayed self) elements)
            \<and> (if reverse then sorted_wrt (\<lambda>a b. zindex a \<ge> zindex b) ys
                else sorted_wrt (\<lambda>a b. zindex a \<le> zindex b) ys)
            \<and> (\<forall>k. filter (\<lambda>y. zindex y = k) ys
                     = filter (\<lambda>x. zindex x = k) (filter (displayed self) elements))"
proof -
  let ?shown = "filter (displayed self) elements"
  from assms(2) have keys: "\<forall>x\<in>set ?shown. \<not> isl (search_zindex x)" by simp
  have run: "filter_displayed_elements self elements reverse =
      Inr (if reverse then rev (sort_key zindex (rev ?shown)) else sort_key zindex ?shown)"
    by (simp only: filter_displayed_elements_sort [OF assms(1)] zindex_sort_Inr [OF keys])
  have up: "sorted_wrt (\<lambda>a b. zindex a \<le> zindex b) (sort_key zindex zs)" for zs
    using sorted_sort_key [of zindex zs] by (simp only: sorted_map)
  then have down: "sorted_wrt (\<lambda>a b. zindex a \<ge> zindex b) (rev (sort_key zindex zs))" for zs
    by (simp only: sorted_wrt_rev)
  have stable: "filter (\<lambda>y. zindex y = k) (rev (sort_key zindex (rev zs)))
                  = filter (\<lambda>x. zindex x = k) zs" for k zs
    by (simp only: rev_filter [symmetric] sort_key_stable) (simp add: rev_filter)
  show ?thesis
  proof (cases reverse)
    case True
    with run down stable show ?thesis by simp
  next
    case False
    with run up show ?thesis by (simp add: sort_key_stable)
  qed
qed

lemma stack_live:
  "map (\<lambda>x. find_element_by_xpath stack_session (xpath_soup stack_session x)) stack
     = [Inr 1, Inr 2, Inr 3, Inr 4]"
  by (simp add: stack_session_def session_def stack_def layer_def BeautifulSoup_def)

lemma stack_resolves:
  "\<forall>x\<in>set stack. \<not> isl (find_element_by_xpath stack_session (xpath_soup stack_session x))"
proof -
  have "\<forall>r\<in>set (map (\<lambda>x. find_element_by_xpath stack_session (xpath_soup stack_session x)) stack).
          \<not> isl r"
    by (simp only: stack_live) simp
  then show ?thesis by simp
qed

text \<open>
  The four layers with the second one hidden, ranked with the flag set.
\<close>

theorem filter_displayed_elements_ranked_witness:
  "\<exists>ys. filter_displayed_elements stack_session stack True = Inr ys
        \<and> mset ys = mset (filter (displayed stack_session) stack)
        \<and> sorted_wrt (\<lambda>a b. zindex a \<ge> zindex b) ys
        \<and> (\<forall>k. filter (\<lambda>y. zindex y = k) ys
                 = filter (\<lambda>x. zindex x = k) (filter (displayed stack_session) stack))"
proof -
  have "\<forall>x\<in>set stack. displayed stack_session x \<longrightarrow> \<not> isl (search_zindex x)"
    using stack_sortable by blast
  from filter_displayed_elements_ranked [OF stack_resolves this, of True]
  show ?thesis by simp
qed

text \<open>
  C6 as stated fails with the flag left unset: the displayed layers come back with the
  z-indexes 0, 1, 1, the lowest first.
\<close>

theorem filter_displayed_elements_ascending_counterexample:
  "filter_displayed_elements stack_session stack False = Inr [stack ! 3, stack ! 0, stack ! 2]
   \<and> map zindex [stack ! 3, stack ! 0, stack ! 2] = [0, 1, 1]"
  by code_simp

section \<open>Properties of the derived z-index\<close>

lemma contains_prefix: "sub \<noteq> [] \<Longrightarrow> prefix sub s \<Longrightarrow> contains sub s"
  by (cases s) auto

lemma contains_shift: "contains sub s \<Longrightarrow> contains sub (pre @ s)"
  by (induction pre) (auto simp: neq_Nil_conv)

lemma contains_occurrence: "sep \<noteq> [] \<Longrightarrow> contains sep (pre @ sep @ post)"
  by (rule contains_shift) (simp add: contains_prefix)

lemma split_from_acc:
  "\<exists>h rest. split_from sep [] s = h # rest \<and> split_from sep acc s = (rev acc @ h) # rest"
proof (induction s arbitrary: acc)
  case Nil
  then show ?case by simp
next
  case (Cons c cs)
  show ?case
  proof (cases "sep \<noteq> [] \<and> prefix sep (c # cs)")
    case True
    then show ?thesis by simp
  next
    case False
    from Cons.IH [of "[c]"] obtain h rest
      where 1: "split_from sep [] cs = h # rest" and 2: "split_from sep [c] cs = (c # h) # rest"
      by auto
    from Cons.IH [of "c # acc"] 1 have "split_from sep (c # acc) cs = (rev acc @ c # h) # rest"
      by auto
    with False 2 show ?thesis by simp
  qed
qed

text \<open>
  Splitting at the first occurrence of the separator: the piece before it, then the pieces
  of the rest.
\<close>

lemma split_from_first:
  assumes "sep \<noteq> []"
  shows "\<not> contains sep (pre @ butlast sep) \<Longrightarrow>
         split_from sep acc (pre @ sep @ post) = (rev acc @ pre) # split_from sep [] post"
proof (induction pre arbitrary: acc)
  case Nil
  from assms obtain c cs where sep: "sep = c # cs" by (cases sep) auto
  then show ?case by simp
next
  case (Cons p ps)
  from Cons.prems have no: "\<not> prefix sep (p # ps @ butlast sep)"
    and rest: "\<not> contains sep (ps @ butlast sep)" by simp_all
  have "\<not> prefix sep (p # ps @ sep @ post)"
  proof
    assume pf: "prefix sep (p # ps @ sep @ post)"
    have "p # ps @ sep @ post = (p # ps @ butlast sep) @ (last sep # post)"
      using assms by simp
    with pf have "prefix sep ((p # ps @ butlast sep) @ (last sep # post))" by simp
    moreover have "length sep \<le> length (p # ps @ butlast sep)" by simp
    ultimately have "prefix sep (p # ps @ butlast sep)"
      by (metis prefix_length_prefix prefixI)
    with no show False ..
  qed
  then show ?case using Cons.IH [OF rest, of "p # acc"] by simp
qed

lemma split_single_hd:
  "\<exists>rest. split_from [c] acc s = (rev acc @ takeWhile (\<lambda>x. x \<noteq> c) s) # rest"
proof (induction s arbitrary: acc)
  case Nil
  then show ?case by simp
next
  case (Cons x xs)
  show ?case
  proof (cases "x = c")
    case True
    then show ?thesis by simp
  next
    case False
    with Cons.IH [of "x # acc"] show ?thesis by simp
  qed
qed

lemma prefix_takeWhile:
  "prefix sep s \<Longrightarrow> c \<notin> set sep \<Longrightarrow> prefix sep (takeWhile (\<lambda>x. x \<noteq> c) s)"
proof -
  assume "prefix sep s" and c: "c \<notin> set sep"
  then obtain r where "s = sep @ r" by (auto simp: prefix_def)
  moreover from c have "\<forall>x\<in>set sep. x \<noteq> c" by blast
  ultimately show ?thesis by simp
qed

text \<open>
  If the separator does not occur before the first \<open>c\<close>, cutting the first piece at \<open>c\<close> is
  cutting the whole string at \<open>c\<close>.
\<close>

lemma split_hd_takeWhile:
  assumes "sep \<noteq> []" and "c \<notin> set sep"
  shows "\<not> contains sep (takeWhile (\<lambda>x. x \<noteq> c) s) \<Longrightarrow>
         \<exists>h rest. split_from sep [] s = h # rest
                 \<and> takeWhile (\<lambda>x. x \<noteq> c) h = takeWhile (\<lambda>x. x \<noteq> c) s"
proof (induction s)
  case Nil
  then show ?case by simp
next
  case (Cons x xs)
  have np: "\<not> prefix sep (x # xs)"
  proof
    assume "prefix sep (x # xs)"
    then have "prefix sep (takeWhile (\<lambda>y. y \<noteq> c) (x # xs))"
      using assms(2) by (rule prefix_takeWhile)
    then have "contains sep (takeWhile (\<lambda>y. y \<noteq> c) (x # xs))"
      by (rule contains_prefix [OF assms(1)])
    with Cons.prems show False ..
  qed
  from split_from_acc [of sep xs "[x]"] obtain h rest
    where h: "split_from sep [] xs = h # rest" "split_from sep [x] xs = (x # h) # rest" by auto
  show ?case
  proof (cases "x = c")
    case True
    with np h show ?thesis by simp
  next
    case False
    with Cons.prems have "\<not> contains sep (takeWhile (\<lambda>y. y \<noteq> c) xs)" by simp
    from Cons.IH [OF this] h have "takeWhile (\<lambda>y. y \<noteq> c) h = takeWhile (\<lambda>y. y \<noteq> c) xs" by simp
    with np h False show ?thesis by simp
  qed
qed

lemma strip_strip: "strip (strip s) = strip s"
proof -
  let ?t = "dropWhile isspace s"
  let ?u = "rev (dropWhile isspace (rev ?t))"
  have t: "?t = ?u @ rev (takeWhile isspace (rev ?t))"
    by (metis rev_append rev_rev_ident takeWhile_dropWhile_id)
  have "dropWhile isspace ?u = ?u"
  proof (cases ?u)
    case Nil
    then show ?thesis by (simp only: dropWhile.simps)
  next
    case (Cons a as)
    with t have "hd ?t = a" "?t \<noteq> []" by (metis append_Cons list.sel(1), metis Nil_is_append_conv list.distinct(1))
    then have "\<not> isspace a" by (metis hd_dropWhile)
    with Cons show ?thesis by simp
  qed
  then show ?thesis by (simp add: strip_def)
qed

lemma py_int_strip: "py_int (strip s) = py_int s"
  by (simp add: py_int_def strip_strip)


lemma search_zindex_marker:
  assumes style: "map_of attrs ''style'' = Some (pre @ ''z-index:'' @ post)"
    and first: "\<not> contains ''z-index:'' (pre @ ''z-index'')"
    and next_marker: "\<not> contains ''z-index:'' (takeWhile (\<lambda>c. c \<noteq> CHR '';'') post)"
  shows "search_zindex (Tag nm attrs cs, fs) = py_int (takeWhile (\<lambda>c. c \<noteq> CHR '';'') post)"
proof -
  let ?m = "''z-index:''"
  have occurs: "contains ?m (pre @ ?m @ post)" by (rule contains_occurrence) simp
  have "\<not> contains ?m (pre @ butlast ?m)" using first by simp
  then have pieces: "split (pre @ ?m @ post) ?m = pre # split_from ?m [] post"
    using split_from_first [of ?m pre "[]" post] by (simp add: split_def)
  from split_hd_takeWhile [of ?m "CHR '';''" post] next_marker
  obtain h rest where h: "split_from ?m [] post = h # rest"
    and cut: "takeWhile (\<lambda>c. c \<noteq> CHR '';'') h = takeWhile (\<lambda>c. c \<noteq> CHR '';'') post"
    by auto
  from split_single_hd [of "CHR '';''" "[]" h] obtain rest'
    where semi: "split h '';'' = takeWhile (\<lambda>c. c \<noteq> CHR '';'') h # rest'"
    by (auto simp: split_def)
  have "search_zindex (Tag nm attrs cs, fs) = py_int (strip (takeWhile (\<lambda>c. c \<noteq> CHR '';'') post))"
    using style occurs
    by (simp only: search_zindex_def fst_conv node.case option.case if_True pieces h list.case
        semi cut)
  then show ?thesis by (simp only: py_int_strip)
qed

lemma digit_char: "d < 10 \<Longrightarrow> of_char (char_of (48 + d :: nat)) = 48 + d"
  by simp

lemma isdigit_char: "d < 10 \<Longrightarrow> isdigit (char_of (48 + d :: nat))"
  by (simp add: isdigit_def)

lemma decimal_digits: "list_all isdigit (decimal n) \<and> decimal n \<noteq> []"
proof (induction n rule: decimal.induct)
  case (1 n)
  show ?case
  proof (cases "n < 10")
    case True
    then show ?thesis by (subst decimal.simps, subst (2) decimal.simps) (simp add: isdigit_char)
  next
    case False
    have "n mod 10 < 10" by simp
    then have "isdigit (char_of (48 + n mod 10))" by (rule isdigit_char)
    with False "1.IH" show ?thesis by (subst decimal.simps, subst (2) decimal.simps) simp
  qed
qed

lemma digits_value_snoc:
  "digits_value (ds @ [c]) = 10 * digits_value ds + (int (of_char c) - 48)"
  by (simp add: digits_value_def)

lemma digits_value_decimal: "digits_value (decimal n) = int n"
proof (induction n rule: decimal.induct)
  case (1 n)
  show ?case
  proof (cases "n < 10")
    case True
    then show ?thesis by (subst decimal.simps) (simp add: digits_value_def)
  next
    case False
    have "n mod 10 < 10" by simp
    then have "(of_char (char_of (48 + n mod 10 :: nat)) :: nat) = 48 + n mod 10"
      by (rule digit_char)
    then have "int (of_char (char_of (48 + n mod 10 :: nat))) - 48 = int (n mod 10)"
      by simp
    moreover from False "1.IH" have "digits_value (decimal (n div 10)) = int (n div 10)" by simp
    ultimately have "digits_value (decimal (n div 10) @ [char_of (48 + n mod 10)]) = int n"
      by (simp only: digits_value_snoc) (simp add: zmod_int zdiv_int)
    with False show ?thesis by (subst decimal.simps) simp
  qed
qed

lemma split_from_absent: "c \<notin> set s \<Longrightarrow> split_from [c] acc s = [rev acc @ s]"
  by (induction s arbitrary: acc) auto

lemma strip_clean:
  assumes "list_all (\<lambda>c. \<not> isspace c) s"
  shows "strip s = s"
proof -
  have keep: "dropWhile isspace t = t" if "list_all (\<lambda>c. \<not> isspace c) t" for t
    using that by (cases t) simp_all
  from assms have "list_all (\<lambda>c. \<not> isspace c) (rev s)" by (simp add: list_all_iff)
  with keep [OF assms] keep [of "rev s"] show ?thesis by (simp add: strip_def)
qed

lemma py_int_digits:
  assumes "list_all isdigit ds" and "ds \<noteq> []"
  shows "py_int ds = Inr (digits_value ds)"
proof -
  have d: "isdigit c \<Longrightarrow> \<not> isspace c \<and> c \<noteq> CHR ''-'' \<and> c \<noteq> CHR ''+'' \<and> c \<noteq> CHR ''_''" for c
    by (auto simp: isdigit_def isspace_def Let_def)
  from assms(1) d have "list_all (\<lambda>c. \<not> isspace c) ds" by (auto simp: list_all_iff)
  then have s: "strip ds = ds" by (rule strip_clean)
  from assms d have h: "hd ds \<noteq> CHR ''-''" "hd ds \<noteq> CHR ''+''"
    by (cases ds; simp)+
  from assms(1) d have "CHR ''_'' \<notin> set ds" by (auto simp: list_all_iff)
  then have g: "split ds ''_'' = [ds]"
    using split_from_absent [of "CHR ''_''" ds "[]"] by (simp add: split_def)
  show ?thesis using assms h by (simp add: py_int_def s g Let_def)
qed

text \<open>
  \<open>int()\<close> reads a decimal numeral back.
\<close>

lemma py_int_decimal: "py_int (decimal n) = Inr (int n)"
  using decimal_digits [of n] by (simp add: py_int_digits digits_value_decimal)

lemma search_zindex_decimal:
  assumes "map_of attrs ''style'' = Some (''z-index:'' @ decimal n @ '';'' @ rest)"
  shows "search_zindex (Tag nm attrs cs, fs) = Inr (int n)"
proof -
  have digit: "isdigit c \<Longrightarrow> c \<noteq> CHR '';'' \<and> c \<noteq> CHR ''z''" for c
    by (auto simp: isdigit_def Let_def)
  from decimal_digits [of n] digit have semi: "\<forall>c\<in>set (decimal n). c \<noteq> CHR '';''"
    and zed: "CHR ''z'' \<notin> set (decimal n)"
    by (auto simp: list_all_iff)
  from semi have cut: "takeWhile (\<lambda>c. c \<noteq> CHR '';'') (decimal n @ '';'' @ rest) = decimal n"
    by simp
  have absent: "\<not> contains ''z-index:'' t" if "CHR ''z'' \<notin> set t" for t
    using that by (induction t) (auto simp: prefix_def)
  have next_marker:
    "\<not> contains ''z-index:'' (takeWhile (\<lambda>c. c \<noteq> CHR '';'') (decimal n @ '';'' @ rest))"
    unfolding cut by (rule absent [OF zed])
  have first: "\<not> contains ''z-index:'' ([] @ ''z-index'')" by (simp add: prefix_def)
  from assms have "map_of attrs ''style'' = Some ([] @ ''z-index:'' @ decimal n @ '';'' @ rest)"
    by simp
  from search_zindex_marker [OF this first next_marker]
  show ?thesis by (simp only: cut py_int_decimal)
qed

text \<open>
  C2 (as amended).  For every element the derived z-index is 0 when the element is a string
  of any class (it has no attribute dictionary), when it has no \<open>style\<close> attribute and when the style
  does not contain \<open>z-index:\<close>.  Otherwise it is what \<open>int()\<close> makes of the text between the
  first marker and the next \<open>;\<close> (or the end of the style), provided no second marker comes
  before that \<open>;\<close>: the number \<open>N\<close> for a style that begins \<open>z-index:N;\<close>, and the
  \<open>ValueError\<close> of \<open>int()\<close>, not 0, when the text is no integer.
\<close>

theorem search_zindex_parsed:
  "(fst element = NavigableString s \<or> fst element = CData s \<or> fst element = Comment s \<longrightarrow>
      search_zindex element = Inr 0)
   \<and> (fst element = Tag nm attrs cs \<longrightarrow>
        (map_of attrs ''style'' = None \<longrightarrow> search_zindex element = Inr 0)
      \<and> (\<forall>style. map_of attrs ''style'' = Some style \<and> \<not> contains ''z-index:'' style \<longrightarrow>
             search_zindex element = Inr 0)
      \<and> (\<forall>pre post.
             map_of attrs ''style'' = Some (pre @ ''z-index:'' @ post)
             \<and> \<not> contains ''z-index:'' (pre @ ''z-index'')
             \<and> \<not> contains ''z-index:'' (takeWhile (\<lambda>c. c \<noteq> CHR '';'') post) \<longrightarrow>
             search_zindex element = py_int (takeWhile (\<lambda>c. c \<noteq> CHR '';'') post))
      \<and> (\<forall>n rest.
             map_of attrs ''style'' = Some (''z-index:'' @ decimal n @ '';'' @ rest) \<longrightarrow>
             search_zindex element = Inr (int n)))"
proof (intro conjI impI allI)
  assume "fst element = NavigableString s \<or> fst element = CData s \<or> fst element = Comment s"
  then show "search_zindex element = Inr 0" by (auto simp: search_zindex_def)
next
  assume "fst element = Tag nm attrs cs" and "map_of attrs ''style'' = None"
  then show "search_zindex element = Inr 0" by (simp add: search_zindex_def)
next
  fix style
  assume "fst element = Tag nm attrs cs"
    and "map_of attrs ''style'' = Some style \<and> \<not> contains ''z-index:'' style"
  then show "search_zindex element = Inr 0" by (simp add: search_zindex_def)
next
  fix pre post
  assume tag: "fst element = Tag nm attrs cs"
    and marker: "map_of attrs ''style'' = Some (pre @ ''z-index:'' @ post)
      \<and> \<not> contains ''z-index:'' (pre @ ''z-index'')
      \<and> \<not> contains ''z-index:'' (takeWhile (\<lambda>c. c \<noteq> CHR '';'') post)"
  from tag have "element = (Tag nm attrs cs, snd element)" by (cases element) simp
  with marker search_zindex_marker [of attrs pre post nm cs "snd element"]
  show "search_zindex element = py_int (takeWhile (\<lambda>c. c \<noteq> CHR '';'') post)" by simp
next
  fix n rest
  assume tag: "fst element = Tag nm attrs cs"
    and style: "map_of attrs ''style'' = Some (''z-index:'' @ decimal n @ '';'' @ rest)"
  from tag have "element = (Tag nm attrs cs, snd element)" by (cases element) simp
  with search_zindex_decimal [OF style, of nm cs "snd element"]
  show "search_zindex element = Inr (int n)" by simp
qed

text \<open>A string, a tag without style, a style without marker, and a style with \<open>z-index: 20\<close>.\<close>

theorem search_zindex_parsed_witness:
  "search_zindex (NavigableString ''Name'', []) = Inr 0
   \<and> search_zindex (Tag ''div'' [] [], []) = Inr 0
   \<and> search_zindex (layer ''div'' ''color:red'', []) = Inr 0
   \<and> search_zindex (layer ''div'' ''top:0; z-index: 20; left:0'', []) = Inr 20"
proof -
  note string = search_zindex_parsed [where element = "(NavigableString ''Name'', [])"
      and s = "''Name''"]
  note bare = search_zindex_parsed [where element = "(Tag ''div'' [] [], [])"
      and nm = "''div''" and attrs = "[]" and cs = "[]"]
  note plain = search_zindex_parsed [where element = "(layer ''div'' ''color:red'', [])"
      and nm = "''div''" and attrs = "[(''style'', ''color:red'')]" and cs = "[]"]
  note marked = search_zindex_parsed
      [where element = "(layer ''div'' ''top:0; z-index: 20; left:0'', [])"
      and nm = "''div''" and attrs = "[(''style'', ''top:0; z-index: 20; left:0'')]"
      and cs = "[]"]
  have 1: "search_zindex (NavigableString ''Name'', []) = Inr 0"
    using string by simp
  have 2: "search_zindex (Tag ''div'' [] [], []) = Inr 0"
    using bare by simp
  have 3: "search_zindex (layer ''div'' ''color:red'', []) = Inr 0"
    using plain by (simp add: layer_def)
  have "py_int '' 20'' = Inr 20"
    by (simp add: py_int_def strip_def isspace_def split_def isdigit_def digits_value_def)
  moreover have "search_zindex (layer ''div'' ''top:0; z-index: 20; left:0'', [])
                   = py_int (takeWhile (\<lambda>c. c \<noteq> CHR '';'') '' 20; left:0'')"
    using marked [THEN conjunct2, THEN mp, THEN conjunct2, THEN conjunct2, THEN conjunct1,
        THEN spec, THEN spec, of "''top:0; ''" "'' 20; left:0''"]
    by (simp add: layer_def)
  ultimately have 4: "search_zindex (layer ''div'' ''top:0; z-index: 20; left:0'', []) = Inr 20"
    by simp
  from 1 2 3 4 show ?thesis by simp
qed

text \<open>
  C2 as stated fails on a style that reads \<open>z-index:auto;\<close>: the text after the marker is
  no integer, and \<open>search_zindex\<close> raises \<open>ValueError\<close> instead of returning 0.
\<close>

theorem search_zindex_unparsable_counterexample:
  "search_zindex (layer ''div'' ''z-index:auto;'', []) = Inl ValueError"
  by (simp add: zindex_eval)

end
